theory Spec2Isabelle
  imports Complex_Main
begin

section \<open>JavaScript values and objects\<close>

text \<open>
  The values that occur in the shape objects and in the export payloads of
  \<^verbatim>\<open>src/index.js\<close>. A number of the script is a double, and it is
  held here as the rational it is. The positions are subtracted and added as the script
  does it, with rounding (see the arithmetic below); the quotients that the generator
  makes of integers are kept exact. Strings are byte lists, the UTF-8
  form of the script's strings. An object is its list of own properties in insertion
  order; the property names of this module are no array indices, which the language
  would list first.
\<close>

datatype jsval =
    JUndefined
  | JNull
  | JBool bool
  | JNum rat
  | JStr string
  | JArr "jsval list"
  | JObj "(string \<times> jsval) list"

type_synonym jsobj = "(string \<times> jsval) list"

datatype error = TypeError | SyntaxError

text \<open>\<^verbatim>\<open>typeof value\<close>.\<close>

fun typeof :: "jsval \<Rightarrow> string" where
  "typeof JUndefined = ''undefined''"
| "typeof JNull = ''object''"
| "typeof (JBool _) = ''boolean''"
| "typeof (JNum _) = ''number''"
| "typeof (JStr _) = ''string''"
| "typeof (JArr _) = ''object''"
| "typeof (JObj _) = ''object''"

text \<open>\<^verbatim>\<open>obj[key]\<close>: \<open>None\<close> is a property the object does not have.\<close>

definition obj_get :: "jsobj \<Rightarrow> string \<Rightarrow> jsval option" where
  "obj_get obj key = map_of obj key"

text \<open>\<^verbatim>\<open>obj[key] = value\<close>: an own property keeps its place, a new one goes last.\<close>

fun obj_set :: "jsobj \<Rightarrow> string \<Rightarrow> jsval \<Rightarrow> jsobj" where
  "obj_set [] key v = [(key, v)]"
| "obj_set ((k, w) # rest) key v =
     (if k = key then (k, v) # rest else (k, w) # obj_set rest key v)"

text \<open>\<^verbatim>\<open>{...a, ...b}\<close>: the properties of \<open>a\<close>, then those of \<open>b\<close>, assigned in order.\<close>

definition spread :: "jsobj \<Rightarrow> jsobj \<Rightarrow> jsobj" where
  "spread a b = foldl (\<lambda>acc (key, v). obj_set acc key v) [] (a @ b)"

definition keys :: "jsobj \<Rightarrow> string list" where
  "keys obj = map fst obj"

text \<open>\<^verbatim>\<open>array[index]\<close>: \<open>None\<close> is \<^verbatim>\<open>undefined\<close>, the read outside the array.\<close>

definition array_get :: "'a list \<Rightarrow> int \<Rightarrow> 'a option" where
  "array_get xs i = (if 0 \<le> i \<and> i < int (length xs) then Some (xs ! nat i) else None)"

text \<open>\<^verbatim>\<open>s.charAt(n)\<close>: the character at \<open>n\<close> as a string, the empty string outside \<open>s\<close>.\<close>

definition charAt :: "string \<Rightarrow> nat \<Rightarrow> string" where
  "charAt s n = take 1 (drop n s)"

text \<open>\<^verbatim>\<open>i.toString()\<close> of a loop counter: the decimal digits of a natural number.\<close>

fun toString :: "nat \<Rightarrow> string" where
  "toString n =
     (if n < 10 then [''0123456789'' ! n]
      else toString (n div 10) @ [''0123456789'' ! (n mod 10)])"

declare toString.simps [simp del]

section \<open>Constants of the module\<close>

definition SHAPE_COUNT :: nat where
  "SHAPE_COUNT = 10000"

definition STAGE_WIDTH :: int where
  "STAGE_WIDTH = 10000"

definition STAGE_HEIGHT :: int where
  "STAGE_HEIGHT = 10000"

definition COMMON_PROPS :: jsobj where
  "COMMON_PROPS = [(''shadowBlur'', JNum 5), (''opacity'', JNum (3 / 4))]"

text \<open>The text template's string is kept as the bytes of the source file.\<close>

definition SHAPE_DEFAULTS :: "(string \<times> jsobj) list" where
  "SHAPE_DEFAULTS =
    [(''rect'', [(''width'', JNum 100), (''height'', JNum 100)]),
     (''circle'', [(''radius'', JNum 50)]),
     (''text'',
        [(''text'', JStr [CHR 0xC3, CHR 0xA2, CHR 0xCB, CHR 0x9C, CHR 0xE2, CHR 0x80, CHR 0xA6]),
         (''fontSize'', JNum 100)]),
     (''star'', [(''numPoints'', JNum 5), (''innerRadius'', JNum 50), (''outerRadius'', JNum 100)]),
     (''triangle'', [(''sides'', JNum 3), (''radius'', JNum 100)]),
     (''hexagon'', [(''sides'', JNum 6), (''radius'', JNum 100)])]"

definition shapeTypes :: "string list" where
  "shapeTypes = [''rect'', ''circle'', ''text'', ''star'', ''triangle'', ''hexagon'']"

definition colors :: "string list" where
  "colors = [''#F00'', ''#0F0'', ''#00F'', ''#FF0'', ''#F0F'', ''#0FF'']"

section \<open>The random source\<close>

text \<open>
  \<^verbatim>\<open>Math.random()\<close> is a sequence of draws: the \<open>k\<close>-th call returns \<open>rnd k\<close>, and the
  number of calls made so far is threaded through the generator. The language promises
  \<open>0 \<le> rnd k < 1\<close>; the theorems about the generator carry this as a hypothesis.
\<close>

type_synonym random_source = "nat \<Rightarrow> rat"


definition Math_random :: "random_source \<Rightarrow> nat \<Rightarrow> rat \<times> nat" where
  "Math_random rnd k = (rnd k, Suc k)"

definition getRandomInt :: "random_source \<Rightarrow> int \<Rightarrow> int \<Rightarrow> nat \<Rightarrow> int \<times> nat" where
  "getRandomInt rnd min_v max_v k =
     (let (r, k') = Math_random rnd k
      in (\<lfloor>r * of_int (max_v - min_v + 1)\<rfloor> + min_v, k'))"

definition getRandomColor :: "random_source \<Rightarrow> nat \<Rightarrow> jsval \<times> nat" where
  "getRandomColor rnd k =
     (let (r, k') = Math_random rnd k
      in (case array_get colors \<lfloor>r * of_int (int (length colors))\<rfloor> of
            Some c \<Rightarrow> JStr c
          | None \<Rightarrow> JUndefined, k'))"

section \<open>Shapes and their generation\<close>

text \<open>
  A shape object. The six properties that the export handlers destructure are fields;
  \<open>rest_props\<close> holds the others (the common style and the scaled template of the kind).
  A position is any number: the generator draws an integer, and a drag or a resize stores
  what the canvas reports. The rotation is kept as the integer the generator draws; the
  handlers only copy it.
\<close>

record shape =
  id_prop :: string
  x_prop :: rat
  y_prop :: rat
  fill_prop :: jsval
  rotation_prop :: int
  type_prop :: string
  rest_props :: jsobj

text \<open>The callback of the \<^verbatim>\<open>reduce\<close> over the template's entries.\<close>

definition scale_entry :: "int \<Rightarrow> jsobj \<Rightarrow> string \<times> jsval \<Rightarrow> jsobj" where
  "scale_entry size_v acc entry =
     (case entry of (key, v) \<Rightarrow>
        obj_set acc key
          (if typeof v = ''number''
           then (case v of JNum n \<Rightarrow> JNum ((n * of_int size_v) / 100) | _ \<Rightarrow> v)
           else v))"

definition scaledDefaults :: "int \<Rightarrow> jsobj \<Rightarrow> jsobj" where
  "scaledDefaults size_v shapeDefaults = foldl (scale_entry size_v) [] shapeDefaults"

text \<open>
  One iteration of the loop of \<^verbatim>\<open>generateShapes\<close>, for the counter \<open>i\<close>, from the
  \<open>k\<close>-th draw on. A kind outside the table has no template, and
  \<^verbatim>\<open>Object.entries(undefined)\<close> throws.
\<close>

definition generateShape ::
  "random_source \<Rightarrow> int \<Rightarrow> int \<Rightarrow> nat \<Rightarrow> nat \<Rightarrow> (error + shape) \<times> nat" where
  "generateShape rnd stageWidth stageHeight i k =
     (let (r, k1) = Math_random rnd k;
          shapeType = array_get shapeTypes \<lfloor>r * of_int (int (length shapeTypes))\<rfloor>;
          (x, k2) = getRandomInt rnd 0 stageWidth k1;
          (y, k3) = getRandomInt rnd 0 stageHeight k2;
          (size_v, k4) = getRandomInt rnd 50 150 k3;
          (rotation, k5) = getRandomInt rnd 0 360 k4;
          (color, k6) = getRandomColor rnd k5
      in (case shapeType of
            None \<Rightarrow> Inl TypeError
          | Some t \<Rightarrow>
              (case map_of SHAPE_DEFAULTS t of
                 None \<Rightarrow> Inl TypeError
               | Some shapeDefaults \<Rightarrow>
                   Inr \<lparr>id_prop = toString i, x_prop = of_int x, y_prop = of_int y,
                        fill_prop = color,
                        rotation_prop = rotation, type_prop = t,
                        rest_props = spread COMMON_PROPS (scaledDefaults size_v shapeDefaults)\<rparr>),
          k6))"

function generateShapes_loop ::
  "random_source \<Rightarrow> int \<Rightarrow> int \<Rightarrow> nat \<Rightarrow> nat \<Rightarrow> nat \<Rightarrow> shape list \<Rightarrow> error + shape list" where
  "generateShapes_loop rnd stageWidth stageHeight count i k shapes =
     (if i < count then
        (case generateShape rnd stageWidth stageHeight i k of
           (Inl e, _) \<Rightarrow> Inl e
         | (Inr s, k') \<Rightarrow>
             generateShapes_loop rnd stageWidth stageHeight count (Suc i) k' (shapes @ [s]))
      else Inr shapes)"
  by pat_completeness auto
termination
  by (relation "measure (\<lambda>(rnd, stageWidth, stageHeight, count, i, k, shapes). count - i)") auto

declare generateShapes_loop.simps [simp del]

text \<open>The generator for a given count and stage, and the one of the module.\<close>

definition generate :: "random_source \<Rightarrow> nat \<Rightarrow> int \<Rightarrow> int \<Rightarrow> error + shape list" where
  "generate rnd count stageWidth stageHeight =
     generateShapes_loop rnd stageWidth stageHeight count 0 0 []"

definition generateShapes :: "random_source \<Rightarrow> error + shape list" where
  "generateShapes rnd = generate rnd SHAPE_COUNT STAGE_WIDTH STAGE_HEIGHT"

section \<open>The runtime: arithmetic of numbers\<close>

text \<open>
  The numbers of the script are the doubles of IEEE 754, and the difference and the sum
  of two of them are the exact results rounded to the nearest double, to the even one of
  two equally near. A double has 53 significant bits, and below \<^verbatim>\<open>2^-1022\<close> its last bit
  stays at \<^verbatim>\<open>2^-1074\<close>. The overflow to \<^verbatim>\<open>Infinity\<close>, beyond \<^verbatim>\<open>2^1024\<close>, is left out.
\<close>

text \<open>The number of bits of a positive integer.\<close>

function bit_length :: "int \<Rightarrow> int" where
  "bit_length n = (if n \<le> 0 then 0 else 1 + bit_length (n div 2))"
  by pat_completeness auto
termination
  by (relation "measure nat") auto

declare bit_length.simps [simp del]

text \<open>The power of two with an integer exponent.\<close>

definition pow2 :: "int \<Rightarrow> rat" where
  "pow2 k = (if 0 \<le> k then 2 ^ nat k else 1 / 2 ^ nat (- k))"

text \<open>The exponent of a positive number \<open>a\<close>: the \<open>e\<close> with \<open>pow2 e \<le> a < pow2 (e + 1)\<close>.\<close>

definition exponent :: "rat \<Rightarrow> int" where
  "exponent a =
     (if 1 \<le> a then bit_length \<lfloor>a\<rfloor> - 1
      else - bit_length (\<lceil>1 / a\<rceil> - 1))"

text \<open>The nearest integer, the even one of two equally near.\<close>

definition round_half_even :: "rat \<Rightarrow> int" where
  "round_half_even r =
     (let n = \<lfloor>r\<rfloor>; f = r - of_int n
      in if f < 1 / 2 then n else if 1 / 2 < f then n + 1 else if even n then n else n + 1)"

text \<open>The nearest double.\<close>

definition double_round :: "rat \<Rightarrow> rat" where
  "double_round q =
     (if q = 0 then 0
      else (let a = \<bar>q\<bar>;
                quantum = pow2 (max (exponent a) (- 1022) - 52)
            in sgn q * (of_int (round_half_even (a / quantum)) * quantum)))"

text \<open>\<^verbatim>\<open>x - y\<close> and \<^verbatim>\<open>x + y\<close> on numbers.\<close>

definition Number_subtract :: "rat \<Rightarrow> rat \<Rightarrow> rat" where
  "Number_subtract x y = double_round (x - y)"

definition Number_add :: "rat \<Rightarrow> rat \<Rightarrow> rat" where
  "Number_add x y = double_round (x + y)"

section \<open>The export payloads\<close>

text \<open>The callback of \<^verbatim>\<open>shapes.map\<close> in \<^verbatim>\<open>handleOptimizedExport\<close>.\<close>

definition optimizedShape :: "shape \<Rightarrow> jsval" where
  "optimizedShape s =
     JObj [(''i'', JStr (id_prop s)),
           (''x'', JNum (x_prop s)),
           (''y'', JNum (y_prop s)),
           (''f'', fill_prop s),
           (''r'', JNum (of_int (rotation_prop s))),
           (''t'', JStr (charAt (type_prop s) 0))]"

definition optimizedShapes :: "shape list \<Rightarrow> jsval list" where
  "optimizedShapes shapes = map optimizedShape shapes"

definition styleTemplates :: jsval where
  "styleTemplates = JObj (map (\<lambda>(kind, template). (kind, JObj template)) SHAPE_DEFAULTS)"

definition optimizedPayload :: "shape list \<Rightarrow> jsval" where
  "optimizedPayload shapes =
     JObj [(''v'', JNum 1),
           (''c'', JObj COMMON_PROPS),
           (''d'', styleTemplates),
           (''s'', JArr (optimizedShapes shapes))]"

text \<open>
  The \<^verbatim>\<open>shapes.map\<close> of \<^verbatim>\<open>handleCompressedExport\<close>: the callback reads and
  assigns \<^verbatim>\<open>lastX\<close> and \<^verbatim>\<open>lastY\<close>, which the recursion passes along.
\<close>

fun compressedShapes_from :: "rat \<Rightarrow> rat \<Rightarrow> shape list \<Rightarrow> jsval list" where
  "compressedShapes_from lastX lastY [] = []"
| "compressedShapes_from lastX lastY (s # rest) =
     (let deltaX = Number_subtract (x_prop s) lastX;
          deltaY = Number_subtract (y_prop s) lastY
      in JObj [(''i'', JStr (id_prop s)),
               (''x'', JNum deltaX),
               (''y'', JNum deltaY),
               (''f'', fill_prop s),
               (''r'', JNum (of_int (rotation_prop s))),
               (''t'', JStr (charAt (type_prop s) 0))]
         # compressedShapes_from (x_prop s) (y_prop s) rest)"

definition compressedShapes :: "shape list \<Rightarrow> jsval list" where
  "compressedShapes shapes = compressedShapes_from 0 0 shapes"

definition compressedPayload :: "shape list \<Rightarrow> jsval" where
  "compressedPayload shapes =
     JObj [(''v'', JNum 1),
           (''c'', JObj COMMON_PROPS),
           (''d'', styleTemplates),
           (''s'', JArr (compressedShapes shapes))]"

text \<open>Reading a property of a payload value; \<open>None\<close> when the value is no object or lacks it.\<close>

fun get_prop :: "jsval \<Rightarrow> string \<Rightarrow> jsval option" where
  "get_prop (JObj obj) key = obj_get obj key"
| "get_prop _ key = None"

fun keys_of :: "jsval \<Rightarrow> string list" where
  "keys_of (JObj obj) = keys obj"
| "keys_of _ = []"

text \<open>The numeric value of a property, and the sequence of these over a list of entries.\<close>

definition num_field :: "string \<Rightarrow> jsval \<Rightarrow> rat option" where
  "num_field key entry = (case get_prop entry key of Some (JNum q) \<Rightarrow> Some q | _ \<Rightarrow> None)"

definition field_sequence :: "string \<Rightarrow> jsval list \<Rightarrow> rat list" where
  "field_sequence key entries = List.map_filter (num_field key) entries"

text \<open>
  The reconstruction the spec describes for the compressed form: the running sum of a
  delta sequence, from the seed \<open>acc\<close>, added as the script adds numbers.
\<close>

fun prefix_sums :: "rat \<Rightarrow> rat list \<Rightarrow> rat list" where
  "prefix_sums acc [] = []"
| "prefix_sums acc (d # ds) = Number_add acc d # prefix_sums (Number_add acc d) ds"

section \<open>The application state and the export handlers\<close>

text \<open>
  The state of the \<^verbatim>\<open>App\<close> component, with the files handed to the browser for
  download (name and content) as the trace of \<^verbatim>\<open>downloadAndShowSize\<close>.
\<close>

record app_state =
  fileSize :: "nat option"
  shapes :: "shape list"
  selectedId :: "string option"
  isLoading :: bool
  stagePos :: "rat \<times> rat"
  lastExportMethod :: string
  downloads :: "(string \<times> string) list"

text \<open>
  What the handlers call outside the module. The canvas library gives the text of the
  mounted stage (\<^verbatim>\<open>stageRef.current.toJSON()\<close>). The runtime writes a number as a
  text (\<^verbatim>\<open>Number.prototype.toString\<close>) and reads the number of a number token;
  both are floating-point operations and are left to the host.
\<close>

record host =
  Number_toString :: "rat \<Rightarrow> string"
  StringToNumber :: "string \<Rightarrow> rat"
  toJSON :: "app_state \<Rightarrow> string"

section \<open>The runtime: \<^verbatim>\<open>JSON.stringify\<close>\<close>

text \<open>
  \<^verbatim>\<open>JSON.stringify(value)\<close> with no replacer and no indentation, after the operations
  QuoteJSONString, SerializeJSONProperty, SerializeJSONArray and SerializeJSONObject of
  the language standard. A control character is escaped, by its short escape or by
  \<^verbatim>\<open>\u00XX\<close>. \<^verbatim>\<open>undefined\<close> has no text: as an array element it is written
  \<^verbatim>\<open>null\<close>, as the value of a property it hides the property, and alone it makes the
  result \<^verbatim>\<open>undefined\<close> (\<open>None\<close>).
\<close>

definition hex_digit :: "nat \<Rightarrow> char" where
  "hex_digit d = ''0123456789abcdef'' ! d"

definition is_control :: "char \<Rightarrow> bool" where
  "is_control c = ((of_char c :: nat) < 32)"

definition quote_char :: "char \<Rightarrow> string" where
  "quote_char c =
     (if c = CHR 0x08 then [CHR 0x5C, CHR ''b'']
      else if c = CHR 0x09 then [CHR 0x5C, CHR ''t'']
      else if c = CHR 0x0A then [CHR 0x5C, CHR ''n'']
      else if c = CHR 0x0C then [CHR 0x5C, CHR ''f'']
      else if c = CHR 0x0D then [CHR 0x5C, CHR ''r'']
      else if c = CHR 0x22 then [CHR 0x5C, CHR 0x22]
      else if c = CHR 0x5C then [CHR 0x5C, CHR 0x5C]
      else if is_control c then
        [CHR 0x5C, CHR ''u'', CHR ''0'', CHR ''0'',
         hex_digit (of_char c div 16), hex_digit (of_char c mod 16)]
      else [c])"

definition QuoteJSONString :: "string \<Rightarrow> string" where
  "QuoteJSONString s = CHR 0x22 # concat (map quote_char s) @ [CHR 0x22]"

fun join_commas :: "string list \<Rightarrow> string" where
  "join_commas [] = []"
| "join_commas [t] = t"
| "join_commas (t # ts) = t @ CHR '','' # join_commas ts"

fun SerializeJSONProperty :: "host \<Rightarrow> jsval \<Rightarrow> string option"
  and SerializeJSONArray :: "host \<Rightarrow> jsval list \<Rightarrow> string list"
  and SerializeJSONObject :: "host \<Rightarrow> jsobj \<Rightarrow> string list" where
  "SerializeJSONProperty h JUndefined = None"
| "SerializeJSONProperty h JNull = Some ''null''"
| "SerializeJSONProperty h (JBool b) = Some (if b then ''true'' else ''false'')"
| "SerializeJSONProperty h (JNum n) = Some (Number_toString h n)"
| "SerializeJSONProperty h (JStr s) = Some (QuoteJSONString s)"
| "SerializeJSONProperty h (JArr vs) =
     Some (CHR ''['' # join_commas (SerializeJSONArray h vs) @ '']'')"
| "SerializeJSONProperty h (JObj kvs) =
     Some (CHR 0x7B # join_commas (SerializeJSONObject h kvs) @ [CHR 0x7D])"
| "SerializeJSONArray h [] = []"
| "SerializeJSONArray h (v # vs) =
     (case SerializeJSONProperty h v of None \<Rightarrow> ''null'' | Some t \<Rightarrow> t)
       # SerializeJSONArray h vs"
| "SerializeJSONObject h [] = []"
| "SerializeJSONObject h ((k, v) # kvs) =
     (case SerializeJSONProperty h v of
        None \<Rightarrow> SerializeJSONObject h kvs
      | Some t \<Rightarrow> (QuoteJSONString k @ CHR '':'' # t) # SerializeJSONObject h kvs)"

definition JSON_stringify :: "host \<Rightarrow> jsval \<Rightarrow> string option" where
  "JSON_stringify h v = SerializeJSONProperty h v"

section \<open>The runtime: \<^verbatim>\<open>JSON.parse\<close>\<close>

text \<open>
  \<^verbatim>\<open>JSON.parse(text)\<close> with no reviver, after the JSON grammar: white space, the three
  literals, number tokens, string literals with their escapes, arrays and objects. A
  property that a text names twice keeps its first place and its last value. \<open>None\<close>
  is the \<^verbatim>\<open>SyntaxError\<close>.
\<close>

definition is_ws :: "char \<Rightarrow> bool" where
  "is_ws c = (c = CHR 0x20 \<or> c = CHR 0x09 \<or> c = CHR 0x0A \<or> c = CHR 0x0D)"

definition skip_ws :: "string \<Rightarrow> string" where
  "skip_ws s = dropWhile is_ws s"

definition is_digit :: "char \<Rightarrow> bool" where
  "is_digit c = (48 \<le> (of_char c :: nat) \<and> (of_char c :: nat) \<le> 57)"

definition hex_value :: "char \<Rightarrow> nat option" where
  "hex_value c =
     (let n = (of_char c :: nat)
      in if 48 \<le> n \<and> n \<le> 57 then Some (n - 48)
         else if 97 \<le> n \<and> n \<le> 102 then Some (n - 87)
         else if 65 \<le> n \<and> n \<le> 70 then Some (n - 55)
         else None)"

text \<open>The character of a simple escape, after the backslash.\<close>

definition unescape :: "char \<Rightarrow> char option" where
  "unescape e =
     (if e = CHR 0x22 then Some (CHR 0x22)
      else if e = CHR 0x5C then Some (CHR 0x5C)
      else if e = CHR ''/'' then Some (CHR ''/'')
      else if e = CHR ''b'' then Some (CHR 0x08)
      else if e = CHR ''f'' then Some (CHR 0x0C)
      else if e = CHR ''n'' then Some (CHR 0x0A)
      else if e = CHR ''r'' then Some (CHR 0x0D)
      else if e = CHR ''t'' then Some (CHR 0x09)
      else None)"

text \<open>The code unit of four hexadecimal digits.\<close>

definition hex4 :: "char \<Rightarrow> char \<Rightarrow> char \<Rightarrow> char \<Rightarrow> nat option" where
  "hex4 a b c d =
     (case (hex_value a, hex_value b, hex_value c, hex_value d) of
        (Some p, Some q, Some r, Some s) \<Rightarrow> Some (((p * 16 + q) * 16 + r) * 16 + s)
      | _ \<Rightarrow> None)"

text \<open>
  Strings are byte lists, the UTF-8 form of the script's strings: the bytes of the code
  unit of an escape \<^verbatim>\<open>\uXXXX\<close>. A surrogate has no bytes of its own, and an escape
  that names one is not read.
\<close>

definition escape_bytes :: "nat \<Rightarrow> string option" where
  "escape_bytes n =
     (if n < 0x80 then Some [char_of n]
      else if n < 0x800 then Some [char_of (0xC0 + n div 64), char_of (0x80 + n mod 64)]
      else if 0xD800 \<le> n \<and> n < 0xE000 then None
      else Some [char_of (0xE0 + n div 4096), char_of (0x80 + (n div 64) mod 64),
                 char_of (0x80 + n mod 64)])"

text \<open>
  The characters of a string literal after its opening quote, up to the closing quote,
  and the text after it.
\<close>

fun string_body :: "string \<Rightarrow> (string \<times> string) option" where
  "string_body [] = None"
| "string_body (c # cs) =
     (if c = CHR 0x22 then Some ([], cs)
      else if c = CHR 0x5C then
        (case cs of
           [] \<Rightarrow> None
         | e # r \<Rightarrow>
             if e = CHR ''u'' then
               (case r of
                  a # b # c' # d # r' \<Rightarrow>
                    (case hex4 a b c' d of
                       None \<Rightarrow> None
                     | Some n \<Rightarrow>
                         (case escape_bytes n of
                            None \<Rightarrow> None
                          | Some bytes \<Rightarrow>
                              (case string_body r' of
                                 None \<Rightarrow> None
                               | Some (str, rest) \<Rightarrow> Some (bytes @ str, rest))))
                | _ \<Rightarrow> None)
             else
               (case unescape e of
                  None \<Rightarrow> None
                | Some ch \<Rightarrow>
                    (case string_body r of
                       None \<Rightarrow> None
                     | Some (str, rest) \<Rightarrow> Some (ch # str, rest))))
      else if is_control c then None
      else
        (case string_body cs of
           None \<Rightarrow> None
         | Some (str, rest) \<Rightarrow> Some (c # str, rest)))"

text \<open>The grammar of a number token.\<close>

definition is_number_char :: "char \<Rightarrow> bool" where
  "is_number_char c =
     (is_digit c \<or> c = CHR ''-'' \<or> c = CHR ''+'' \<or> c = CHR ''.'' \<or> c = CHR ''e'' \<or> c = CHR ''E'')"

definition digits1 :: "string \<Rightarrow> string option" where
  "digits1 s = (case s of [] \<Rightarrow> None | c # r \<Rightarrow> if is_digit c then Some (dropWhile is_digit r) else None)"

definition int_part :: "string \<Rightarrow> string option" where
  "int_part s =
     (case s of
        [] \<Rightarrow> None
      | c # r \<Rightarrow> if c = CHR ''0'' then Some r else if is_digit c then Some (dropWhile is_digit r) else None)"

definition frac_part :: "string \<Rightarrow> string option" where
  "frac_part s = (case s of [] \<Rightarrow> Some [] | c # r \<Rightarrow> if c = CHR ''.'' then digits1 r else Some s)"

definition exp_part :: "string \<Rightarrow> string option" where
  "exp_part s =
     (case s of
        [] \<Rightarrow> Some []
      | c # r \<Rightarrow>
          if c = CHR ''e'' \<or> c = CHR ''E'' then
            (case r of
               [] \<Rightarrow> None
             | g # r' \<Rightarrow> if g = CHR ''+'' \<or> g = CHR ''-'' then digits1 r' else digits1 r)
          else Some s)"

definition json_number :: "string \<Rightarrow> bool" where
  "json_number t =
     (list_all is_number_char t \<and>
      (case int_part (case t of [] \<Rightarrow> [] | c # r \<Rightarrow> if c = CHR ''-'' then r else t) of
         None \<Rightarrow> False
       | Some r1 \<Rightarrow>
           (case frac_part r1 of
              None \<Rightarrow> False
            | Some r2 \<Rightarrow> (case exp_part r2 of None \<Rightarrow> False | Some r3 \<Rightarrow> r3 = []))))"

definition literal :: "string \<Rightarrow> jsval \<Rightarrow> string \<Rightarrow> (jsval \<times> string) option" where
  "literal word v s =
     (if take (length word) s = word then Some (v, drop (length word) s) else None)"

definition number :: "host \<Rightarrow> string \<Rightarrow> (jsval \<times> string) option" where
  "number h s =
     (let token = takeWhile is_number_char s
      in if json_number token then Some (JNum (StringToNumber h token), dropWhile is_number_char s)
         else None)"

text \<open>
  The recursive descent over values, array elements and object members. The first
  argument bounds the number of nested calls; \<open>JSON_parse\<close> gives it the length of the
  text, and every call reads a character before it makes the next one.
\<close>

fun parse_value :: "host \<Rightarrow> nat \<Rightarrow> string \<Rightarrow> (jsval \<times> string) option"
  and parse_elements :: "host \<Rightarrow> nat \<Rightarrow> jsval list \<Rightarrow> string \<Rightarrow> (jsval \<times> string) option"
  and parse_members :: "host \<Rightarrow> nat \<Rightarrow> jsobj \<Rightarrow> string \<Rightarrow> (jsval \<times> string) option" where
  "parse_value h 0 s = None"
| "parse_value h (Suc n) s =
     (case skip_ws s of
        [] \<Rightarrow> None
      | c # cs \<Rightarrow>
          if c = CHR ''['' then
            (case skip_ws cs of
               [] \<Rightarrow> None
             | d # r \<Rightarrow> if d = CHR '']'' then Some (JArr [], r) else parse_elements h n [] cs)
          else if c = CHR 0x7B then
            (case skip_ws cs of
               [] \<Rightarrow> None
             | d # r \<Rightarrow> if d = CHR 0x7D then Some (JObj [], r) else parse_members h n [] cs)
          else if c = CHR 0x22 then
            (case string_body cs of None \<Rightarrow> None | Some (str, r) \<Rightarrow> Some (JStr str, r))
          else if c = CHR ''t'' then literal ''true'' (JBool True) (c # cs)
          else if c = CHR ''f'' then literal ''false'' (JBool False) (c # cs)
          else if c = CHR ''n'' then literal ''null'' JNull (c # cs)
          else number h (c # cs))"
| "parse_elements h 0 acc s = None"
| "parse_elements h (Suc n) acc s =
     (case parse_value h n s of
        None \<Rightarrow> None
      | Some (v, r) \<Rightarrow>
          (case skip_ws r of
             [] \<Rightarrow> None
           | d # r' \<Rightarrow>
               if d = CHR '','' then parse_elements h n (acc @ [v]) r'
               else if d = CHR '']'' then Some (JArr (acc @ [v]), r')
               else None))"
| "parse_members h 0 acc s = None"
| "parse_members h (Suc n) acc s =
     (case skip_ws s of
        [] \<Rightarrow> None
      | q # cs \<Rightarrow>
          if q = CHR 0x22 then
            (case string_body cs of
               None \<Rightarrow> None
             | Some (key, r) \<Rightarrow>
                 (case skip_ws r of
                    [] \<Rightarrow> None
                  | d # r' \<Rightarrow>
                      if d = CHR '':'' then
                        (case parse_value h n r' of
                           None \<Rightarrow> None
                         | Some (v, r'') \<Rightarrow>
                             (case skip_ws r'' of
                                [] \<Rightarrow> None
                              | e # t \<Rightarrow>
                                  if e = CHR '','' then parse_members h n (obj_set acc key v) t
                                  else if e = CHR 0x7D then Some (JObj (obj_set acc key v), t)
                                  else None))
                      else None))
          else None)"

definition JSON_parse :: "host \<Rightarrow> string \<Rightarrow> jsval option" where
  "JSON_parse h s =
     (case parse_value h (Suc (length s)) s of
        None \<Rightarrow> None
      | Some (v, r) \<Rightarrow> if skip_ws r = [] then Some v else None)"

text \<open>A blob is its bytes; \<^verbatim>\<open>blob.size\<close> is their number.\<close>

definition downloadAndShowSize :: "app_state \<Rightarrow> string \<Rightarrow> string \<Rightarrow> app_state" where
  "downloadAndShowSize st blob method =
     st\<lparr>fileSize := Some (length blob),
        lastExportMethod := method,
        downloads := downloads st @ [(''stage-'' @ method @ ''.json'', blob)]\<rparr>"

text \<open>\<^verbatim>\<open>new Blob([part])\<close>: a part that is \<^verbatim>\<open>undefined\<close> is written as that word.\<close>

definition Blob :: "string option \<Rightarrow> string" where
  "Blob part = (case part of None \<Rightarrow> ''undefined'' | Some text \<Rightarrow> text)"

text \<open>
  Each handler returns the state it leaves and the exception it threw, if any. A handler
  that throws has not reached \<^verbatim>\<open>downloadAndShowSize\<close>.
\<close>

definition handleRegularExport :: "host \<Rightarrow> app_state \<Rightarrow> app_state \<times> error option" where
  "handleRegularExport h st =
     (let json = toJSON h st;
          blob = Blob (Some json)
      in (downloadAndShowSize st blob ''regular'', None))"

definition handleMinifiedExport :: "host \<Rightarrow> app_state \<Rightarrow> app_state \<times> error option" where
  "handleMinifiedExport h st =
     (let json = toJSON h st
      in (case JSON_parse h json of
            None \<Rightarrow> (st, Some SyntaxError)
          | Some v \<Rightarrow>
              (let minified = JSON_stringify h v;
                   blob = Blob minified
               in (downloadAndShowSize st blob ''minified'', None))))"

definition handleOptimizedExport :: "host \<Rightarrow> app_state \<Rightarrow> app_state \<times> error option" where
  "handleOptimizedExport h st =
     (let optimizedJson = JSON_stringify h (optimizedPayload (shapes st));
          blob = Blob optimizedJson
      in (downloadAndShowSize st blob ''optimized'', None))"

definition handleCompressedExport :: "host \<Rightarrow> app_state \<Rightarrow> app_state \<times> error option" where
  "handleCompressedExport h st =
     (let compressedJson = JSON_stringify h (compressedPayload (shapes st));
          blob = Blob compressedJson
      in (downloadAndShowSize st blob ''compressed'', None))"

section \<open>The scenario of the specification\<close>

text \<open>
  Three shapes at the positions (10, 20), (15, 5) and (100, 100), of the kinds rect,
  circle and star.
\<close>

definition scenario :: "shape list" where
  "scenario =
     [\<lparr>id_prop = ''0'', x_prop = 10, y_prop = 20, fill_prop = JStr ''#F00'', rotation_prop = 0,
       type_prop = ''rect'', rest_props = []\<rparr>,
      \<lparr>id_prop = ''1'', x_prop = 15, y_prop = 5, fill_prop = JStr ''#0F0'', rotation_prop = 90,
       type_prop = ''circle'', rest_props = []\<rparr>,
      \<lparr>id_prop = ''2'', x_prop = 100, y_prop = 100, fill_prop = JStr ''#00F'', rotation_prop = 360,
       type_prop = ''star'', rest_props = []\<rparr>]"

text \<open>
  Two shapes after a drag, at the \<open>x\<close> positions 3333.3 and 10.1: the doubles that these
  decimals denote.
\<close>

definition dragged :: "shape list" where
  "dragged =
     [\<lparr>id_prop = ''0'', x_prop = 3665002108865741 / 1099511627776, y_prop = 20,
       fill_prop = JStr ''#F00'', rotation_prop = 0, type_prop = ''rect'', rest_props = []\<rparr>,
      \<lparr>id_prop = ''1'', x_prop = 5685794529555251 / 562949953421312, y_prop = 5,
       fill_prop = JStr ''#0F0'', rotation_prop = 90, type_prop = ''circle'', rest_props = []\<rparr>]"

text \<open>Positions that are integers below \<^verbatim>\<open>2^52\<close> in magnitude.\<close>

definition integer_positions :: "shape list \<Rightarrow> bool" where
  "integer_positions cs =
     list_all (\<lambda>s. x_prop s \<in> \<int> \<and> \<bar>x_prop s\<bar> < 2 ^ 52 \<and>
                    y_prop s \<in> \<int> \<and> \<bar>y_prop s\<bar> < 2 ^ 52) cs"

section \<open>Notions used to state the properties of the generator\<close>


text \<open>The number a string of decimal digits denotes.\<close>

definition decimal_value :: "string \<Rightarrow> nat" where
  "decimal_value s = foldl (\<lambda>acc c. 10 * acc + (of_char c - 48)) 0 s"




section \<open>Notions used to state the properties of the runtime\<close>

text \<open>
  The values of JSON texts: no \<^verbatim>\<open>undefined\<close> inside, and no property twice in an
  object.
\<close>

fun json_value :: "jsval \<Rightarrow> bool"
  and json_elements :: "jsval list \<Rightarrow> bool"
  and json_members :: "jsobj \<Rightarrow> bool" where
  "json_value JUndefined = False"
| "json_value JNull = True"
| "json_value (JBool b) = True"
| "json_value (JNum n) = True"
| "json_value (JStr s) = True"
| "json_value (JArr vs) = json_elements vs"
| "json_value (JObj kvs) = (distinct (map fst kvs) \<and> json_members kvs)"
| "json_elements [] = True"
| "json_elements (v # vs) = (json_value v \<and> json_elements vs)"
| "json_members [] = True"
| "json_members ((k, v) # kvs) = (json_value v \<and> json_members kvs)"

text \<open>
  Every number inside a value is written by the host as a number token that the host
  reads back as the same number.
\<close>

fun numbers_reread :: "host \<Rightarrow> jsval \<Rightarrow> bool"
  and numbers_reread_elements :: "host \<Rightarrow> jsval list \<Rightarrow> bool"
  and numbers_reread_members :: "host \<Rightarrow> jsobj \<Rightarrow> bool" where
  "numbers_reread h (JNum n) =
     (json_number (Number_toString h n) \<and> StringToNumber h (Number_toString h n) = n)"
| "numbers_reread h (JArr vs) = numbers_reread_elements h vs"
| "numbers_reread h (JObj kvs) = numbers_reread_members h kvs"
| "numbers_reread h JUndefined = True"
| "numbers_reread h JNull = True"
| "numbers_reread h (JBool b) = True"
| "numbers_reread h (JStr s) = True"
| "numbers_reread_elements h [] = True"
| "numbers_reread_elements h (v # vs) = (numbers_reread h v \<and> numbers_reread_elements h vs)"
| "numbers_reread_members h [] = True"
| "numbers_reread_members h ((k, v) # kvs) = (numbers_reread h v \<and> numbers_reread_members h kvs)"


text \<open>
  What may follow a value in a text, and how the text of a value begins: used to state
  what the parser does on a written value.
\<close>

definition terminated :: "string \<Rightarrow> bool" where
  "terminated rest = (case rest of [] \<Rightarrow> True | c # _ \<Rightarrow> \<not> is_number_char c)"

definition starts_value :: "string \<Rightarrow> bool" where
  "starts_value t =
     (case t of [] \<Rightarrow> False
      | c # _ \<Rightarrow> \<not> is_ws c \<and> c \<noteq> CHR '']'' \<and> c \<noteq> CHR 0x7D)"

text \<open>
  A host to run the handlers on: it writes and reads integers in decimal notation, and
  its stage has one text, written with white space.
\<close>

definition stage_text :: string where
  \<open>stage_text =
     ''{ "attrs" : { "width" : 800, "x" : -5 }, "className" : "Stage", "children" : [ ] }''\<close>

definition integer_host :: host where
  "integer_host =
     \<lparr>Number_toString =
        (\<lambda>q. if q < 0 then CHR ''-'' # toString (nat (- \<lfloor>q\<rfloor>)) else toString (nat \<lfloor>q\<rfloor>)),
      StringToNumber =
        (\<lambda>t. case t of
                [] \<Rightarrow> 0
              | c # r \<Rightarrow> if c = CHR ''-'' then - of_nat (decimal_value r)
                         else of_nat (decimal_value t)),
      toJSON = (\<lambda>st. stage_text)\<rparr>"

definition stage_value :: jsval where
  "stage_value =
     JObj [(''attrs'', JObj [(''width'', JNum 800), (''x'', JNum (- 5))]),
           (''className'', JStr ''Stage''),
           (''children'', JArr [])]"

definition initial_state :: app_state where
  "initial_state =
     \<lparr>fileSize = None, shapes = scenario, selectedId = None, isLoading = False,
      stagePos = (0, 0), lastExportMethod = [], downloads = []\<rparr>"

section \<open>The kind tag\<close>

text \<open>
  C1. The claim asks that two distinct kinds of the enumeration never get the same tag.
  The handlers take the tag with \<^verbatim>\<open>type.charAt(0)\<close>, and the kinds text and triangle
  both begin with the letter t: a shape of either kind is exported with the tag \<open>t\<close>, by
  the optimized handler and by the compressed one.
\<close>

theorem kind_tag_collision:
  "''text'' \<in> set shapeTypes \<and> ''triangle'' \<in> set shapeTypes \<and> ''text'' \<noteq> ''triangle'' \<and>
   get_prop (optimizedShape (s\<lparr>type_prop := ''text''\<rparr>)) ''t'' = Some (JStr ''t'') \<and>
   get_prop (optimizedShape (s'\<lparr>type_prop := ''triangle''\<rparr>)) ''t'' = Some (JStr ''t'') \<and>
   get_prop (compressedShapes [s\<lparr>type_prop := ''text''\<rparr>] ! 0) ''t'' = Some (JStr ''t'') \<and>
   get_prop (compressedShapes [s'\<lparr>type_prop := ''triangle''\<rparr>] ! 0) ''t'' = Some (JStr ''t'')"
  by (simp add: shapeTypes_def optimizedShape_def compressedShapes_def obj_get_def charAt_def
      Let_def)

section \<open>Integers in the arithmetic of numbers\<close>

lemma bit_length_nonneg: "0 \<le> bit_length n"
proof (induction n rule: bit_length.induct)
  case (1 n)
  then show ?case by (subst bit_length.simps) simp
qed

lemma bit_length_pos: "0 < n \<Longrightarrow> 0 < bit_length n"
  using bit_length_nonneg [of "n div 2"] by (subst bit_length.simps) simp

lemma bit_length_le: "n < 2 ^ m \<Longrightarrow> bit_length n \<le> int m"
proof (induction m arbitrary: n)
  case 0
  then show ?case by (subst bit_length.simps) simp
next
  case (Suc m)
  show ?case
  proof (cases "n \<le> 0")
    case True
    then show ?thesis by (subst bit_length.simps) simp
  next
    case False
    from Suc.prems have "n div 2 < 2 ^ m" by simp
    from Suc.IH [OF this] False show ?thesis by (subst bit_length.simps) simp
  qed
qed

lemma round_half_even_int: "round_half_even (of_int z) = z"
  by (simp add: round_half_even_def)

lemma double_round_int:
  assumes "\<bar>n\<bar> < 2 ^ 53"
  shows "double_round (of_int n) = of_int n"
proof (cases "n = 0")
  case True
  then show ?thesis by (simp add: double_round_def)
next
  case False
  let ?e = "bit_length \<bar>n\<bar> - 1"
  from False have m: "0 < \<bar>n\<bar>" by simp
  from bit_length_le [OF assms] bit_length_pos [OF m]
  have e: "0 \<le> ?e" "?e \<le> 52" by simp_all
  from m have "1 \<le> \<bar>n\<bar>" by linarith
  then have "rat_of_int 1 \<le> rat_of_int \<bar>n\<bar>" by (simp only: of_int_le_iff)
  then have a: "(1::rat) \<le> \<bar>of_int n\<bar>" by simp
  have fl: "\<lfloor>\<bar>rat_of_int n\<bar>\<rfloor> = \<bar>n\<bar>"
    by (simp flip: of_int_abs)
  from a fl have ex: "exponent \<bar>of_int n\<bar> = ?e" by (simp add: exponent_def)
  define j where "j = nat (52 - ?e)"
  from e have q: "pow2 (max ?e (- 1022) - 52) = 1 / 2 ^ j"
    by (cases "?e = 52") (simp_all add: pow2_def j_def max_def)
  have "\<bar>rat_of_int n\<bar> / (1 / 2 ^ j) = of_int (\<bar>n\<bar> * 2 ^ j)" by simp
  then have r: "round_half_even (\<bar>rat_of_int n\<bar> / (1 / 2 ^ j)) = \<bar>n\<bar> * 2 ^ j"
    by (simp only: round_half_even_int)
  have s: "sgn (rat_of_int n) * (of_int (\<bar>n\<bar> * 2 ^ j) * (1 / 2 ^ j)) = of_int n"
    by (simp add: sgn_if)
  from False have "double_round (of_int n) =
      sgn (rat_of_int n) *
        (of_int (round_half_even (\<bar>rat_of_int n\<bar> / pow2 (max (exponent \<bar>rat_of_int n\<bar>) (- 1022) - 52))) *
         pow2 (max (exponent \<bar>rat_of_int n\<bar>) (- 1022) - 52))"
    by (simp add: double_round_def Let_def)
  also have "\<dots> = sgn (rat_of_int n) * (of_int (\<bar>n\<bar> * 2 ^ j) * (1 / 2 ^ j))"
    by (simp only: ex q r)
  also note s
  finally show ?thesis .
qed

lemma Number_subtract_int:
  "\<bar>a - b\<bar> < 2 ^ 53 \<Longrightarrow> Number_subtract (of_int a) (of_int b) = of_int (a - b)"
  using double_round_int [of "a - b"] by (simp add: Number_subtract_def)

lemma Number_add_int:
  "\<bar>a + b\<bar> < 2 ^ 53 \<Longrightarrow> Number_add (of_int a) (of_int b) = of_int (a + b)"
  using double_round_int [of "a + b"] by (simp add: Number_add_def)

lemma integer_step:
  assumes "x \<in> \<int>" "\<bar>x\<bar> < 2 ^ 52" "l \<in> \<int>" "\<bar>l\<bar> < 2 ^ 52"
  shows "Number_subtract x l = x - l" and "Number_add l (Number_subtract x l) = x"
proof -
  from assms(1) obtain a where a: "x = of_int a" by (rule Ints_cases)
  from assms(3) obtain b where b: "l = of_int b" by (rule Ints_cases)
  note ab = a b
  with assms(2,4) have bounds: "\<bar>a\<bar> < 2 ^ 52" "\<bar>b\<bar> < 2 ^ 52"
    by (simp_all flip: of_int_abs add: of_int_less_numeral_power_cancel_iff)
  then have "\<bar>a - b\<bar> < 2 ^ 53" "\<bar>b + (a - b)\<bar> < 2 ^ 53" by simp_all
  from Number_subtract_int [OF this(1)] Number_add_int [OF this(2)] ab
  show "Number_subtract x l = x - l" and "Number_add l (Number_subtract x l) = x"
    by simp_all
qed

section \<open>Delta encoding of the positions\<close>

lemma compressedShapes_from_length:
  "length (compressedShapes_from lastX lastY ss) = length ss"
  by (induction ss arbitrary: lastX lastY) (simp_all add: Let_def)

lemma compressedShapes_from_nth:
  "i < length ss \<Longrightarrow>
   compressedShapes_from lastX lastY ss ! i =
     JObj [(''i'', JStr (id_prop (ss ! i))),
           (''x'', JNum (Number_subtract (x_prop (ss ! i))
                     (if i = 0 then lastX else x_prop (ss ! (i - 1))))),
           (''y'', JNum (Number_subtract (y_prop (ss ! i))
                     (if i = 0 then lastY else y_prop (ss ! (i - 1))))),
           (''f'', fill_prop (ss ! i)),
           (''r'', JNum (of_int (rotation_prop (ss ! i)))),
           (''t'', JStr (charAt (type_prop (ss ! i)) 0))]"
proof (induction ss arbitrary: lastX lastY i)
  case Nil
  then show ?case by simp
next
  case (Cons s ss)
  show ?case
  proof (cases i)
    case 0
    then show ?thesis by (simp add: Let_def)
  next
    case (Suc j)
    with Cons.prems have "j < length ss" by simp
    from Cons.IH [OF this, of "x_prop s" "y_prop s"] Suc show ?thesis
      by (cases j) (simp_all add: Let_def)
  qed
qed

lemma compressedShapes_scenario:
  "compressedShapes scenario =
     [JObj [(''i'', JStr ''0''), (''x'', JNum 10), (''y'', JNum 20), (''f'', JStr ''#F00''),
            (''r'', JNum 0), (''t'', JStr ''r'')],
      JObj [(''i'', JStr ''1''), (''x'', JNum 5), (''y'', JNum (- 15)), (''f'', JStr ''#0F0''),
            (''r'', JNum 90), (''t'', JStr ''c'')],
      JObj [(''i'', JStr ''2''), (''x'', JNum 85), (''y'', JNum 95), (''f'', JStr ''#00F''),
            (''r'', JNum 360), (''t'', JStr ''s'')]]"
  by code_simp

lemma field_sequence_Cons:
  "get_prop e key = Some (JNum q) \<Longrightarrow> field_sequence key (e # es) = q # field_sequence key es"
  by (simp add: field_sequence_def map_filter_simps num_field_def)

lemma prefix_sums_x:
  assumes "list_all (\<lambda>s. x_prop s \<in> \<int> \<and> \<bar>x_prop s\<bar> < 2 ^ 52) ss"
    and "lastX \<in> \<int>" "\<bar>lastX\<bar> < 2 ^ 52"
  shows "prefix_sums lastX (field_sequence ''x'' (compressedShapes_from lastX lastY ss)) =
           map x_prop ss"
  using assms
proof (induction ss arbitrary: lastX lastY)
  case Nil
  show ?case by (simp add: field_sequence_def map_filter_simps)
next
  case (Cons s ss)
  from Cons.prems have x: "x_prop s \<in> \<int>" "\<bar>x_prop s\<bar> < 2 ^ 52"
    and rest: "list_all (\<lambda>s. x_prop s \<in> \<int> \<and> \<bar>x_prop s\<bar> < 2 ^ 52) ss" by simp_all
  from integer_step(2) [OF x Cons.prems(2,3)]
  have restored: "Number_add lastX (Number_subtract (x_prop s) lastX) = x_prop s" .
  have "field_sequence ''x'' (compressedShapes_from lastX lastY (s # ss)) =
          Number_subtract (x_prop s) lastX
            # field_sequence ''x'' (compressedShapes_from (x_prop s) (y_prop s) ss)"
    by (simp add: Let_def field_sequence_Cons obj_get_def)
  with restored Cons.IH [OF rest x, of "y_prop s"] show ?case by simp
qed

lemma prefix_sums_y:
  assumes "list_all (\<lambda>s. y_prop s \<in> \<int> \<and> \<bar>y_prop s\<bar> < 2 ^ 52) ss"
    and "lastY \<in> \<int>" "\<bar>lastY\<bar> < 2 ^ 52"
  shows "prefix_sums lastY (field_sequence ''y'' (compressedShapes_from lastX lastY ss)) =
           map y_prop ss"
  using assms
proof (induction ss arbitrary: lastX lastY)
  case Nil
  show ?case by (simp add: field_sequence_def map_filter_simps)
next
  case (Cons s ss)
  from Cons.prems have y: "y_prop s \<in> \<int>" "\<bar>y_prop s\<bar> < 2 ^ 52"
    and rest: "list_all (\<lambda>s. y_prop s \<in> \<int> \<and> \<bar>y_prop s\<bar> < 2 ^ 52) ss" by simp_all
  from integer_step(2) [OF y Cons.prems(2,3)]
  have restored: "Number_add lastY (Number_subtract (y_prop s) lastY) = y_prop s" .
  have "field_sequence ''y'' (compressedShapes_from lastX lastY (s # ss)) =
          Number_subtract (y_prop s) lastY
            # field_sequence ''y'' (compressedShapes_from (x_prop s) (y_prop s) ss)"
    by (simp add: Let_def field_sequence_Cons obj_get_def)
  with restored Cons.IH [OF rest y, of "x_prop s"] show ?case by simp
qed

text \<open>
  C2, as amended. For a collection whose positions are integers below \<^verbatim>\<open>2^52\<close> in
  magnitude, as the generator makes them, the \<open>i\<close>-th entry of the compressed payload
  carries the difference between the position of the \<open>i\<close>-th shape and that of the shape
  before it, the first shape being measured from 0; the running sums of the encoded \<open>x\<close>
  and \<open>y\<close> sequences, started at 0, are the original positions.
\<close>

theorem compressed_delta_roundtrip:
  assumes "integer_positions cs"
  shows "get_prop (compressedPayload cs) ''s'' = Some (JArr (compressedShapes cs)) \<and>
   length (compressedShapes cs) = length cs \<and>
   (\<forall>i < length cs.
      get_prop (compressedShapes cs ! i) ''x'' =
        Some (JNum (x_prop (cs ! i) - (if i = 0 then 0 else x_prop (cs ! (i - 1))))) \<and>
      get_prop (compressedShapes cs ! i) ''y'' =
        Some (JNum (y_prop (cs ! i) - (if i = 0 then 0 else y_prop (cs ! (i - 1)))))) \<and>
   prefix_sums 0 (field_sequence ''x'' (compressedShapes cs)) = map x_prop cs \<and>
   prefix_sums 0 (field_sequence ''y'' (compressedShapes cs)) = map y_prop cs"
proof -
  from assms have all: "\<And>s. s \<in> set cs \<Longrightarrow>
      x_prop s \<in> \<int> \<and> \<bar>x_prop s\<bar> < 2 ^ 52 \<and> y_prop s \<in> \<int> \<and> \<bar>y_prop s\<bar> < 2 ^ 52"
    by (simp add: integer_positions_def list_all_iff)
  have zero: "(0::rat) \<in> \<int>" "\<bar>0::rat\<bar> < 2 ^ 52" by simp_all
  have payload: "get_prop (compressedPayload cs) ''s'' = Some (JArr (compressedShapes cs))"
    by (simp add: compressedPayload_def obj_get_def)
  have len: "length (compressedShapes cs) = length cs"
    by (simp add: compressedShapes_def compressedShapes_from_length)
  have entries: "\<forall>i < length cs.
      get_prop (compressedShapes cs ! i) ''x'' =
        Some (JNum (x_prop (cs ! i) - (if i = 0 then 0 else x_prop (cs ! (i - 1))))) \<and>
      get_prop (compressedShapes cs ! i) ''y'' =
        Some (JNum (y_prop (cs ! i) - (if i = 0 then 0 else y_prop (cs ! (i - 1)))))"
  proof (intro allI impI)
    fix i assume i: "i < length cs"
    then have cur: "cs ! i \<in> set cs" by simp
    let ?px = "if i = 0 then 0 else x_prop (cs ! (i - 1))"
    let ?py = "if i = 0 then 0 else y_prop (cs ! (i - 1))"
    have prev: "?px \<in> \<int> \<and> \<bar>?px\<bar> < 2 ^ 52 \<and> ?py \<in> \<int> \<and> \<bar>?py\<bar> < 2 ^ 52"
    proof (cases "i = 0")
      case True
      then show ?thesis by simp
    next
      case False
      with i have "cs ! (i - 1) \<in> set cs" by simp
      from all [OF this] False show ?thesis by simp
    qed
    from all [OF cur] prev
    have "Number_subtract (x_prop (cs ! i)) ?px = x_prop (cs ! i) - ?px"
      "Number_subtract (y_prop (cs ! i)) ?py = y_prop (cs ! i) - ?py"
      by (simp_all only: integer_step(1))
    with compressedShapes_from_nth [OF i, of 0 0]
    show "get_prop (compressedShapes cs ! i) ''x'' = Some (JNum (x_prop (cs ! i) - ?px)) \<and>
          get_prop (compressedShapes cs ! i) ''y'' = Some (JNum (y_prop (cs ! i) - ?py))"
      by (simp add: compressedShapes_def obj_get_def)
  qed
  from assms have lx: "list_all (\<lambda>s. x_prop s \<in> \<int> \<and> \<bar>x_prop s\<bar> < 2 ^ 52) cs"
    and ly: "list_all (\<lambda>s. y_prop s \<in> \<int> \<and> \<bar>y_prop s\<bar> < 2 ^ 52) cs"
    by (simp_all add: integer_positions_def list_all_iff)
  have sx: "prefix_sums 0 (field_sequence ''x'' (compressedShapes cs)) = map x_prop cs"
    using prefix_sums_x [OF lx zero, of 0] by (simp add: compressedShapes_def)
  have sy: "prefix_sums 0 (field_sequence ''y'' (compressedShapes cs)) = map y_prop cs"
    using prefix_sums_y [OF ly zero, of 0] by (simp add: compressedShapes_def)
  from payload len entries sx sy show ?thesis by blast
qed

text \<open>
  The scenario: the encoded sequences are 10, 5, 85 and 20, -15, 95, and their running
  sums give back 10, 15, 100 and 20, 5, 100.
\<close>

theorem compressed_delta_roundtrip_witness:
  "integer_positions scenario \<and>
   map x_prop scenario = [10, 15, 100] \<and> map y_prop scenario = [20, 5, 100] \<and>
   field_sequence ''x'' (compressedShapes scenario) = [10, 5, 85] \<and>
   field_sequence ''y'' (compressedShapes scenario) = [20, - 15, 95] \<and>
   prefix_sums 0 (field_sequence ''x'' (compressedShapes scenario)) = [10, 15, 100] \<and>
   prefix_sums 0 (field_sequence ''y'' (compressedShapes scenario)) = [20, 5, 100] \<and>
   get_prop (compressedShapes scenario ! 2) ''x'' = Some (JNum 85) \<and>
   get_prop (compressedShapes scenario ! 2) ''y'' = Some (JNum 95)"
proof -
  have ip: "integer_positions scenario"
    by (simp add: integer_positions_def scenario_def)
  have seqs: "field_sequence ''x'' (compressedShapes scenario) = [10, 5, 85] \<and>
              field_sequence ''y'' (compressedShapes scenario) = [20, - 15, 95]"
    by (simp add: compressedShapes_scenario field_sequence_def map_filter_simps
        num_field_def obj_get_def)
  have pos: "map x_prop scenario = [10, 15, 100] \<and> map y_prop scenario = [20, 5, 100]"
    by (simp add: scenario_def)
  have idx: "(2::nat) < length scenario" "scenario ! 2 = scenario ! Suc (Suc 0)"
    "scenario ! (2 - 1) = scenario ! Suc 0"
    by (simp_all add: scenario_def numeral_2_eq_2)
  from compressed_delta_roundtrip [OF ip] have
    "\<forall>i < length scenario.
      get_prop (compressedShapes scenario ! i) ''x'' =
        Some (JNum (x_prop (scenario ! i)
                - (if i = 0 then 0 else x_prop (scenario ! (i - 1))))) \<and>
      get_prop (compressedShapes scenario ! i) ''y'' =
        Some (JNum (y_prop (scenario ! i)
                - (if i = 0 then 0 else y_prop (scenario ! (i - 1)))))"
    and sums:
      "prefix_sums 0 (field_sequence ''x'' (compressedShapes scenario)) = map x_prop scenario"
      "prefix_sums 0 (field_sequence ''y'' (compressedShapes scenario)) = map y_prop scenario"
    by blast+
  from this(1) idx(1) have
    "get_prop (compressedShapes scenario ! 2) ''x'' =
        Some (JNum (x_prop (scenario ! 2)
                - (if (2::nat) = 0 then 0 else x_prop (scenario ! (2 - 1))))) \<and>
     get_prop (compressedShapes scenario ! 2) ''y'' =
        Some (JNum (y_prop (scenario ! 2)
                - (if (2::nat) = 0 then 0 else y_prop (scenario ! (2 - 1)))))"
    by blast
  then have e2: "get_prop (compressedShapes scenario ! 2) ''x'' = Some (JNum 85) \<and>
                 get_prop (compressedShapes scenario ! 2) ''y'' = Some (JNum 95)"
    by (simp add: idx(2,3)) (simp add: scenario_def)
  from sums have
    "prefix_sums 0 (field_sequence ''x'' (compressedShapes scenario)) = [10, 15, 100]"
    "prefix_sums 0 (field_sequence ''y'' (compressedShapes scenario)) = [20, 5, 100]"
    by (simp_all add: scenario_def)
  with ip seqs pos e2 show ?thesis by blast
qed

text \<open>
  The claim as it was stated, for every collection, fails after a drag. With the two
  shapes at the \<open>x\<close> positions 3333.3 and 10.1, both of them doubles, the second entry
  carries -3323.2000000000003, which is not the difference of the two positions, and the
  running sums end at 10.099999999999909, which is not the second position.
\<close>

theorem compressed_delta_roundtrip_counterexample:
  "double_round (x_prop (dragged ! 0)) = x_prop (dragged ! 0) \<and>
   double_round (x_prop (dragged ! 1)) = x_prop (dragged ! 1) \<and>
   get_prop (compressedShapes dragged ! 1) ''x'' =
     Some (JNum (- 7307794082850407 / 2199023255552)) \<and>
   x_prop (dragged ! 1) - x_prop (dragged ! 0) \<noteq> - 7307794082850407 / 2199023255552 \<and>
   prefix_sums 0 (field_sequence ''x'' (compressedShapes dragged)) =
     [3665002108865741 / 1099511627776, 22210134881075 / 2199023255552] \<and>
   prefix_sums 0 (field_sequence ''x'' (compressedShapes dragged)) \<noteq> map x_prop dragged"
  by code_simp

section \<open>The layout of the optimized payload\<close>

lemma optimizedShape_props:
  "keys_of (optimizedShape s) = [''i'', ''x'', ''y'', ''f'', ''r'', ''t''] \<and>
   get_prop (optimizedShape s) ''i'' = Some (JStr (id_prop s)) \<and>
   get_prop (optimizedShape s) ''x'' = Some (JNum (x_prop s)) \<and>
   get_prop (optimizedShape s) ''y'' = Some (JNum (y_prop s)) \<and>
   get_prop (optimizedShape s) ''f'' = Some (fill_prop s) \<and>
   get_prop (optimizedShape s) ''r'' = Some (JNum (of_int (rotation_prop s))) \<and>
   get_prop (optimizedShape s) ''t'' = Some (JStr (take 1 (type_prop s)))"
  by (simp add: optimizedShape_def keys_def obj_get_def charAt_def)

lemma optimizedShape_other:
  "key \<notin> set [''i'', ''x'', ''y'', ''f'', ''r'', ''t''] \<Longrightarrow> get_prop (optimizedShape s) key = None"
  by (simp add: optimizedShape_def obj_get_def)

text \<open>
  C4. The optimized payload is one object with the properties \<open>v\<close> (the version, 1),
  \<open>c\<close> (the common style), \<open>d\<close> (the templates of the kinds) and \<open>s\<close> (the shapes).
  Each entry of \<open>s\<close> has exactly the properties \<open>i\<close>, \<open>x\<close>, \<open>y\<close>, \<open>f\<close>, \<open>r\<close>, \<open>t\<close>:
  the identifier, the position, the fill and the rotation of its shape, unchanged, and
  the first character of its kind. No other property, of geometry or of style, is in an
  entry.
\<close>

theorem optimized_payload_layout:
  "keys_of (optimizedPayload cs) = [''v'', ''c'', ''d'', ''s''] \<and>
   get_prop (optimizedPayload cs) ''v'' = Some (JNum 1) \<and>
   get_prop (optimizedPayload cs) ''c'' = Some (JObj COMMON_PROPS) \<and>
   get_prop (optimizedPayload cs) ''d'' = Some styleTemplates \<and>
   get_prop (optimizedPayload cs) ''s'' = Some (JArr (optimizedShapes cs)) \<and>
   length (optimizedShapes cs) = length cs \<and>
   (\<forall>n < length cs.
      keys_of (optimizedShapes cs ! n) = [''i'', ''x'', ''y'', ''f'', ''r'', ''t''] \<and>
      get_prop (optimizedShapes cs ! n) ''i'' = Some (JStr (id_prop (cs ! n))) \<and>
      get_prop (optimizedShapes cs ! n) ''x'' = Some (JNum (x_prop (cs ! n))) \<and>
      get_prop (optimizedShapes cs ! n) ''y'' = Some (JNum (y_prop (cs ! n))) \<and>
      get_prop (optimizedShapes cs ! n) ''f'' = Some (fill_prop (cs ! n)) \<and>
      get_prop (optimizedShapes cs ! n) ''r'' = Some (JNum (of_int (rotation_prop (cs ! n)))) \<and>
      get_prop (optimizedShapes cs ! n) ''t'' = Some (JStr (take 1 (type_prop (cs ! n)))) \<and>
      (\<forall>key. key \<notin> set [''i'', ''x'', ''y'', ''f'', ''r'', ''t'']
          \<longrightarrow> get_prop (optimizedShapes cs ! n) key = None))"
proof -
  have header: "keys_of (optimizedPayload cs) = [''v'', ''c'', ''d'', ''s''] \<and>
      get_prop (optimizedPayload cs) ''v'' = Some (JNum 1) \<and>
      get_prop (optimizedPayload cs) ''c'' = Some (JObj COMMON_PROPS) \<and>
      get_prop (optimizedPayload cs) ''d'' = Some styleTemplates \<and>
      get_prop (optimizedPayload cs) ''s'' = Some (JArr (optimizedShapes cs))"
    by (simp add: optimizedPayload_def keys_def obj_get_def)
  have len: "length (optimizedShapes cs) = length cs"
    by (simp add: optimizedShapes_def)
  have entries: "\<forall>n < length cs.
      keys_of (optimizedShapes cs ! n) = [''i'', ''x'', ''y'', ''f'', ''r'', ''t''] \<and>
      get_prop (optimizedShapes cs ! n) ''i'' = Some (JStr (id_prop (cs ! n))) \<and>
      get_prop (optimizedShapes cs ! n) ''x'' = Some (JNum (x_prop (cs ! n))) \<and>
      get_prop (optimizedShapes cs ! n) ''y'' = Some (JNum (y_prop (cs ! n))) \<and>
      get_prop (optimizedShapes cs ! n) ''f'' = Some (fill_prop (cs ! n)) \<and>
      get_prop (optimizedShapes cs ! n) ''r'' = Some (JNum (of_int (rotation_prop (cs ! n)))) \<and>
      get_prop (optimizedShapes cs ! n) ''t'' = Some (JStr (take 1 (type_prop (cs ! n)))) \<and>
      (\<forall>key. key \<notin> set [''i'', ''x'', ''y'', ''f'', ''r'', ''t'']
          \<longrightarrow> get_prop (optimizedShapes cs ! n) key = None)"
  proof (intro allI impI)
    fix n assume "n < length cs"
    then have "optimizedShapes cs ! n = optimizedShape (cs ! n)"
      by (simp add: optimizedShapes_def)
    then show "keys_of (optimizedShapes cs ! n) = [''i'', ''x'', ''y'', ''f'', ''r'', ''t''] \<and>
      get_prop (optimizedShapes cs ! n) ''i'' = Some (JStr (id_prop (cs ! n))) \<and>
      get_prop (optimizedShapes cs ! n) ''x'' = Some (JNum (x_prop (cs ! n))) \<and>
      get_prop (optimizedShapes cs ! n) ''y'' = Some (JNum (y_prop (cs ! n))) \<and>
      get_prop (optimizedShapes cs ! n) ''f'' = Some (fill_prop (cs ! n)) \<and>
      get_prop (optimizedShapes cs ! n) ''r'' = Some (JNum (of_int (rotation_prop (cs ! n)))) \<and>
      get_prop (optimizedShapes cs ! n) ''t'' = Some (JStr (take 1 (type_prop (cs ! n)))) \<and>
      (\<forall>key. key \<notin> set [''i'', ''x'', ''y'', ''f'', ''r'', ''t'']
          \<longrightarrow> get_prop (optimizedShapes cs ! n) key = None)"
      using optimizedShape_props [of "cs ! n"] optimizedShape_other [of _ "cs ! n"]
      by (simp del: set_simps)
  qed
  from header len entries show ?thesis by blast
qed

text \<open>The second shape of the scenario, a circle, becomes an entry with the tag \<open>c\<close>.\<close>

theorem optimized_payload_layout_witness:
  "get_prop (optimizedPayload scenario) ''v'' = Some (JNum 1) \<and>
   optimizedShapes scenario ! 1 =
     JObj [(''i'', JStr ''1''), (''x'', JNum 15), (''y'', JNum 5), (''f'', JStr ''#0F0''),
           (''r'', JNum 90), (''t'', JStr ''c'')] \<and>
   get_prop (optimizedShapes scenario ! 1) ''radius'' = None \<and>
   get_prop (optimizedShapes scenario ! 1) ''opacity'' = None \<and>
   get_prop (optimizedShapes scenario ! 1) ''t'' = Some (JStr ''c'')"
proof -
  have n: "(1::nat) < length scenario" by (simp add: scenario_def)
  have e: "optimizedShapes scenario ! 1 =
     JObj [(''i'', JStr ''1''), (''x'', JNum 15), (''y'', JNum 5), (''f'', JStr ''#0F0''),
           (''r'', JNum 90), (''t'', JStr ''c'')]"
    by (simp add: scenario_def optimizedShapes_def optimizedShape_def charAt_def)
  have k: "''radius'' \<notin> set [''i'', ''x'', ''y'', ''f'', ''r'', ''t'']"
     "''opacity'' \<notin> set [''i'', ''x'', ''y'', ''f'', ''r'', ''t'']" by simp_all
  have t: "take 1 (type_prop (scenario ! 1)) = ''c''" by (simp add: scenario_def)
  from optimized_payload_layout [of scenario] n k t
  have "get_prop (optimizedPayload scenario) ''v'' = Some (JNum 1) \<and>
   get_prop (optimizedShapes scenario ! 1) ''radius'' = None \<and>
   get_prop (optimizedShapes scenario ! 1) ''opacity'' = None \<and>
   get_prop (optimizedShapes scenario ! 1) ''t'' = Some (JStr ''c'')"
    by metis
  with e show ?thesis by blast
qed

section \<open>The compressed payload against the optimized one\<close>

text \<open>
  C7. The two payloads have the same properties and agree on the version, the common
  style and the templates; their shape lists have the same length, and entries at the
  same place have the same properties and agree on all of them but \<open>x\<close> and \<open>y\<close>, which
  hold the deltas in the compressed payload.
\<close>

theorem compressed_matches_optimized:
  "keys_of (compressedPayload cs) = keys_of (optimizedPayload cs) \<and>
   get_prop (compressedPayload cs) ''v'' = get_prop (optimizedPayload cs) ''v'' \<and>
   get_prop (compressedPayload cs) ''c'' = get_prop (optimizedPayload cs) ''c'' \<and>
   get_prop (compressedPayload cs) ''d'' = get_prop (optimizedPayload cs) ''d'' \<and>
   get_prop (compressedPayload cs) ''s'' = Some (JArr (compressedShapes cs)) \<and>
   get_prop (optimizedPayload cs) ''s'' = Some (JArr (optimizedShapes cs)) \<and>
   length (compressedShapes cs) = length (optimizedShapes cs) \<and>
   (\<forall>n < length cs.
      keys_of (compressedShapes cs ! n) = keys_of (optimizedShapes cs ! n) \<and>
      (\<forall>key. key \<noteq> ''x'' \<and> key \<noteq> ''y'' \<longrightarrow>
         get_prop (compressedShapes cs ! n) key = get_prop (optimizedShapes cs ! n) key) \<and>
      get_prop (compressedShapes cs ! n) ''x'' =
        Some (JNum (Number_subtract (x_prop (cs ! n))
                (if n = 0 then 0 else x_prop (cs ! (n - 1))))) \<and>
      get_prop (compressedShapes cs ! n) ''y'' =
        Some (JNum (Number_subtract (y_prop (cs ! n))
                (if n = 0 then 0 else y_prop (cs ! (n - 1))))))"
proof -
  have header: "keys_of (compressedPayload cs) = keys_of (optimizedPayload cs) \<and>
      get_prop (compressedPayload cs) ''v'' = get_prop (optimizedPayload cs) ''v'' \<and>
      get_prop (compressedPayload cs) ''c'' = get_prop (optimizedPayload cs) ''c'' \<and>
      get_prop (compressedPayload cs) ''d'' = get_prop (optimizedPayload cs) ''d'' \<and>
      get_prop (compressedPayload cs) ''s'' = Some (JArr (compressedShapes cs)) \<and>
      get_prop (optimizedPayload cs) ''s'' = Some (JArr (optimizedShapes cs))"
    by (simp add: compressedPayload_def optimizedPayload_def keys_def obj_get_def)
  have len: "length (compressedShapes cs) = length (optimizedShapes cs)"
    by (simp add: compressedShapes_def optimizedShapes_def compressedShapes_from_length)
  have entries: "\<forall>n < length cs.
      keys_of (compressedShapes cs ! n) = keys_of (optimizedShapes cs ! n) \<and>
      (\<forall>key. key \<noteq> ''x'' \<and> key \<noteq> ''y'' \<longrightarrow>
         get_prop (compressedShapes cs ! n) key = get_prop (optimizedShapes cs ! n) key) \<and>
      get_prop (compressedShapes cs ! n) ''x'' =
        Some (JNum (Number_subtract (x_prop (cs ! n))
                (if n = 0 then 0 else x_prop (cs ! (n - 1))))) \<and>
      get_prop (compressedShapes cs ! n) ''y'' =
        Some (JNum (Number_subtract (y_prop (cs ! n))
                (if n = 0 then 0 else y_prop (cs ! (n - 1)))))"
    by (simp add: compressedShapes_def optimizedShapes_def compressedShapes_from_nth
        optimizedShape_def keys_def obj_get_def)
  from header len entries show ?thesis by blast
qed

text \<open>The second entries of the scenario: only \<open>x\<close> and \<open>y\<close> differ.\<close>

theorem compressed_matches_optimized_witness:
  "optimizedShapes scenario ! 1 =
     JObj [(''i'', JStr ''1''), (''x'', JNum 15), (''y'', JNum 5), (''f'', JStr ''#0F0''),
           (''r'', JNum 90), (''t'', JStr ''c'')] \<and>
   compressedShapes scenario ! 1 =
     JObj [(''i'', JStr ''1''), (''x'', JNum 5), (''y'', JNum (- 15)), (''f'', JStr ''#0F0''),
           (''r'', JNum 90), (''t'', JStr ''c'')] \<and>
   get_prop (compressedShapes scenario ! 1) ''f'' = get_prop (optimizedShapes scenario ! 1) ''f'' \<and>
   get_prop (compressedShapes scenario ! 1) ''t'' = get_prop (optimizedShapes scenario ! 1) ''t'' \<and>
   length (compressedShapes scenario) = length (optimizedShapes scenario)"
proof -
  have n: "(1::nat) < length scenario" by (simp add: scenario_def)
  have e: "optimizedShapes scenario ! 1 =
     JObj [(''i'', JStr ''1''), (''x'', JNum 15), (''y'', JNum 5), (''f'', JStr ''#0F0''),
           (''r'', JNum 90), (''t'', JStr ''c'')]"
    by (simp add: scenario_def optimizedShapes_def optimizedShape_def charAt_def)
  have c: "compressedShapes scenario ! 1 =
     JObj [(''i'', JStr ''1''), (''x'', JNum 5), (''y'', JNum (- 15)), (''f'', JStr ''#0F0''),
           (''r'', JNum 90), (''t'', JStr ''c'')]"
    by (simp add: compressedShapes_scenario)
  have k: "''f'' \<noteq> ''x'' \<and> ''f'' \<noteq> ''y''" "''t'' \<noteq> ''x'' \<and> ''t'' \<noteq> ''y''" by simp_all
  from compressed_matches_optimized [of scenario] n k
  have "get_prop (compressedShapes scenario ! 1) ''f'' = get_prop (optimizedShapes scenario ! 1) ''f'' \<and>
   get_prop (compressedShapes scenario ! 1) ''t'' = get_prop (optimizedShapes scenario ! 1) ''t'' \<and>
   length (compressedShapes scenario) = length (optimizedShapes scenario)"
    by metis
  with e c show ?thesis by blast
qed

section \<open>The handlers and the shapes of the state\<close>

text \<open>
  C9. Whichever of the four handlers runs, and whether it ends or throws, the shapes of
  the state it leaves are the shapes of the state it was started in.
\<close>

theorem export_leaves_shapes:
  "shapes (fst (handleRegularExport h st)) = shapes st \<and>
   shapes (fst (handleMinifiedExport h st)) = shapes st \<and>
   shapes (fst (handleOptimizedExport h st)) = shapes st \<and>
   shapes (fst (handleCompressedExport h st)) = shapes st"
  by (simp add: handleRegularExport_def handleMinifiedExport_def handleOptimizedExport_def
      handleCompressedExport_def downloadAndShowSize_def Let_def split: option.split)

section \<open>The generator\<close>
























section \<open>Writing a value and reading it back\<close>

lemma hex_value_hex_digit: "d < 16 \<Longrightarrow> hex_value (hex_digit d) = Some d"
proof -
  assume "d < 16"
  then consider "d = 0" | "d = 1" | "d = 2" | "d = 3" | "d = 4" | "d = 5" | "d = 6" | "d = 7"
    | "d = 8" | "d = 9" | "d = 10" | "d = 11" | "d = 12" | "d = 13" | "d = 14" | "d = 15"
    by atomize_elim arith
  then show ?thesis by cases (simp_all add: hex_value_def hex_digit_def)
qed

lemma hex4_control:
  assumes "is_control c"
  shows "hex4 (CHR ''0'') (CHR ''0'') (hex_digit (of_char c div 16)) (hex_digit (of_char c mod 16))
           = Some (of_char c)"
proof -
  from assms have "(of_char c :: nat) div 16 < 16" "(of_char c :: nat) mod 16 < 16"
    by (simp_all add: is_control_def)
  then show ?thesis
    by (simp add: hex4_def hex_value_hex_digit) (simp add: hex_value_def)
qed

lemma string_body_quote_char:
  assumes "string_body s = Some (str, rest)"
  shows "string_body (quote_char c @ s) = Some (c # str, rest)"
proof -
  consider "c = CHR 0x08" | "c = CHR 0x09" | "c = CHR 0x0A" | "c = CHR 0x0C" | "c = CHR 0x0D"
    | "c = CHR 0x22" | "c = CHR 0x5C"
    | "c \<noteq> CHR 0x08" "c \<noteq> CHR 0x09" "c \<noteq> CHR 0x0A" "c \<noteq> CHR 0x0C" "c \<noteq> CHR 0x0D"
      "c \<noteq> CHR 0x22" "c \<noteq> CHR 0x5C" "is_control c"
    | "c \<noteq> CHR 0x08" "c \<noteq> CHR 0x09" "c \<noteq> CHR 0x0A" "c \<noteq> CHR 0x0C" "c \<noteq> CHR 0x0D"
      "c \<noteq> CHR 0x22" "c \<noteq> CHR 0x5C" "\<not> is_control c"
    by blast
  then show ?thesis
  proof cases
    case 8
    from 8(8) have "escape_bytes (of_char c) = Some [c]"
      by (simp add: is_control_def escape_bytes_def)
    with 8 hex4_control [OF 8(8)] assms show ?thesis
      by (simp add: quote_char_def)
  next
    case 9
    with assms show ?thesis by (simp add: quote_char_def)
  qed (use assms in \<open>simp_all add: quote_char_def unescape_def\<close>)
qed

lemma string_body_quoted:
  "string_body (concat (map quote_char s) @ CHR 0x22 # rest) = Some (s, rest)"
  by (induction s) (simp_all add: string_body_quote_char)

lemma json_number_hd:
  assumes "json_number t"
  shows "\<exists>c r. t = c # r \<and> (c = CHR ''-'' \<or> is_digit c)"
proof (cases t)
  case Nil
  with assms show ?thesis by (simp add: json_number_def int_part_def)
next
  case (Cons c r)
  show ?thesis
  proof (cases "c = CHR ''-''")
    case True
    with Cons show ?thesis by simp
  next
    case False
    with assms Cons have "int_part (c # r) \<noteq> None"
      by (auto simp: json_number_def split: option.splits)
    then have "is_digit c"
      by (auto simp: int_part_def is_digit_def split: if_splits)
    with Cons show ?thesis by simp
  qed
qed

lemma takeWhile_token:
  assumes "list_all is_number_char t" "terminated rest"
  shows "takeWhile is_number_char (t @ rest) = t \<and> dropWhile is_number_char (t @ rest) = rest"
proof -
  from assms(1) have a: "\<forall>c \<in> set t. is_number_char c" by (simp add: list_all_iff)
  from assms(2) have "takeWhile is_number_char rest = [] \<and> dropWhile is_number_char rest = rest"
    by (cases rest) (simp_all add: terminated_def)
  with a show ?thesis by (simp add: takeWhile_append2 dropWhile_append2)
qed

lemma parse_number_token:
  assumes "json_number t" "terminated rest"
  shows "parse_value h (Suc n) (t @ rest) = Some (JNum (StringToNumber h t), rest)"
    and "starts_value t"
proof -
  from json_number_hd [OF assms(1)] obtain c r where
    t: "t = c # r" and c: "c = CHR ''-'' \<or> is_digit c" by blast
  from c have nws: "\<not> is_ws c" by (auto simp: is_ws_def is_digit_def)
  from c have other: "c \<noteq> CHR ''[''" "c \<noteq> CHR 0x7B" "c \<noteq> CHR 0x22" "c \<noteq> CHR ''t''"
    "c \<noteq> CHR ''f''" "c \<noteq> CHR ''n''" "c \<noteq> CHR '']''" "c \<noteq> CHR 0x7D"
    by (auto simp: is_digit_def)
  from nws other t show "starts_value t" by (simp add: starts_value_def)
  from assms(1) have "list_all is_number_char t" by (simp add: json_number_def)
  from takeWhile_token [OF this assms(2)] assms(1)
  have "number h (t @ rest) = Some (JNum (StringToNumber h t), rest)"
    by (simp add: number_def)
  with nws other t show "parse_value h (Suc n) (t @ rest) = Some (JNum (StringToNumber h t), rest)"
    by (simp add: skip_ws_def)
qed

lemma parse_string_literal:
  "parse_value h (Suc n) (QuoteJSONString s @ rest) = Some (JStr s, rest)"
  by (simp add: QuoteJSONString_def skip_ws_def is_ws_def string_body_quoted)

lemma parse_literals:
  "parse_value h (Suc n) (''null'' @ rest) = Some (JNull, rest)"
  "parse_value h (Suc n) (''true'' @ rest) = Some (JBool True, rest)"
  "parse_value h (Suc n) (''false'' @ rest) = Some (JBool False, rest)"
  by (simp_all add: skip_ws_def is_ws_def literal_def)

lemma serialize_defined: "json_value v \<Longrightarrow> \<exists>t. SerializeJSONProperty h v = Some t"
  by (cases v) simp_all

lemma SerializeJSONObject_nonempty:
  "json_members kvs \<Longrightarrow> kvs \<noteq> [] \<Longrightarrow> SerializeJSONObject h kvs \<noteq> []"
proof (cases kvs)
  case Nil
  assume "kvs \<noteq> []"
  with Nil show ?thesis by simp
next
  case (Cons kv rest)
  assume "json_members kvs"
  with Cons obtain k v where kv: "kv = (k, v)" "json_value v" by (cases kv) simp
  from serialize_defined [OF kv(2), of h] Cons kv(1) show ?thesis by auto
qed

lemma SerializeJSONArray_nonempty: "vs \<noteq> [] \<Longrightarrow> SerializeJSONArray h vs \<noteq> []"
  by (cases vs) simp_all

lemma join_commas_Cons: "ts \<noteq> [] \<Longrightarrow> join_commas (t # ts) = t @ CHR '','' # join_commas ts"
  by (cases ts) simp_all

lemma obj_set_fresh: "key \<notin> fst ` set acc \<Longrightarrow> obj_set acc key v = acc @ [(key, v)]"
  by (induction acc) auto

lemma starts_value_append: "starts_value t \<Longrightarrow> starts_value (t @ u)"
  by (cases t) (simp_all add: starts_value_def)

lemma terminated_simps:
  "terminated (CHR '','' # r)" "terminated (CHR '']'' # r)" "terminated (CHR 0x7D # r)"
  by (simp_all add: terminated_def is_number_char_def is_digit_def)

lemma starts_value_quote: "starts_value (QuoteJSONString s @ u)"
  by (simp add: starts_value_def QuoteJSONString_def is_ws_def)

lemma parse_elements_one:
  assumes "parse_value h m (t @ CHR '']'' # rest) = Some (v, CHR '']'' # rest)"
  shows "parse_elements h (Suc m) acc (t @ CHR '']'' # rest) = Some (JArr (acc @ [v]), rest)"
  using assms by (simp add: skip_ws_def is_ws_def)

lemma parse_elements_more:
  assumes "parse_value h m (t @ CHR '','' # u) = Some (v, CHR '','' # u)"
  shows "parse_elements h (Suc m) acc (t @ CHR '','' # u) = parse_elements h m (acc @ [v]) u"
  using assms by (simp add: skip_ws_def is_ws_def)

lemma parse_members_one:
  assumes "parse_value h m (t @ CHR 0x7D # rest) = Some (v, CHR 0x7D # rest)"
  shows "parse_members h (Suc m) acc (QuoteJSONString k @ CHR '':'' # t @ CHR 0x7D # rest) =
           Some (JObj (obj_set acc k v), rest)"
  using assms by (simp add: skip_ws_def is_ws_def QuoteJSONString_def string_body_quoted)

lemma parse_members_more:
  assumes "parse_value h m (t @ CHR '','' # u) = Some (v, CHR '','' # u)"
  shows "parse_members h (Suc m) acc (QuoteJSONString k @ CHR '':'' # t @ CHR '','' # u) =
           parse_members h m (obj_set acc k v) u"
  using assms by (simp add: skip_ws_def is_ws_def QuoteJSONString_def string_body_quoted)

lemma parse_array_text:
  assumes "vs = [] \<or> (starts_value ts \<and> parse_elements h m [] (ts @ CHR '']'' # rest) = Some (JArr vs, rest))"
    and "vs = [] \<longrightarrow> ts = []"
  shows "parse_value h (Suc m) ((CHR ''['' # ts @ '']'') @ rest) = Some (JArr vs, rest)"
proof (cases "vs = []")
  case True
  with assms(2) show ?thesis by (simp add: skip_ws_def is_ws_def)
next
  case False
  with assms(1) have st: "starts_value ts"
    and p: "parse_elements h m [] (ts @ CHR '']'' # rest) = Some (JArr vs, rest)" by blast+
  from st obtain d r where ts: "ts = d # r" "\<not> is_ws d" "d \<noteq> CHR '']''"
    by (cases ts) (simp_all add: starts_value_def)
  with p show ?thesis by (simp add: skip_ws_def is_ws_def)
qed

lemma parse_object_text:
  assumes "kvs = [] \<or> (starts_value ts \<and> parse_members h m [] (ts @ CHR 0x7D # rest) = Some (JObj kvs, rest))"
    and "kvs = [] \<longrightarrow> ts = []"
  shows "parse_value h (Suc m) ((CHR 0x7B # ts @ [CHR 0x7D]) @ rest) = Some (JObj kvs, rest)"
proof (cases "kvs = []")
  case True
  with assms(2) show ?thesis by (simp add: skip_ws_def is_ws_def)
next
  case False
  with assms(1) have st: "starts_value ts"
    and p: "parse_members h m [] (ts @ CHR 0x7D # rest) = Some (JObj kvs, rest)" by blast+
  from st obtain d r where ts: "ts = d # r" "\<not> is_ws d" "d \<noteq> CHR 0x7D"
    by (cases ts) (simp_all add: starts_value_def)
  with p show ?thesis by (simp add: skip_ws_def is_ws_def)
qed

lemma parse_serialized:
  "json_value v \<Longrightarrow> numbers_reread h v \<Longrightarrow>
     \<exists>t. SerializeJSONProperty h v = Some t \<and> starts_value t \<and>
         (\<forall>n rest. length t \<le> n \<longrightarrow> terminated rest \<longrightarrow>
            parse_value h n (t @ rest) = Some (v, rest))"
  and "json_elements vs \<Longrightarrow> numbers_reread_elements h vs \<Longrightarrow> vs \<noteq> [] \<Longrightarrow>
     starts_value (join_commas (SerializeJSONArray h vs)) \<and>
     (\<forall>n acc rest. length (join_commas (SerializeJSONArray h vs)) < n \<longrightarrow>
        parse_elements h n acc (join_commas (SerializeJSONArray h vs) @ CHR '']'' # rest) =
          Some (JArr (acc @ vs), rest))"
  and "json_members kvs \<Longrightarrow> numbers_reread_members h kvs \<Longrightarrow> kvs \<noteq> [] \<Longrightarrow>
     starts_value (join_commas (SerializeJSONObject h kvs)) \<and>
     (\<forall>n acc rest. distinct (map fst acc @ map fst kvs) \<longrightarrow>
        length (join_commas (SerializeJSONObject h kvs)) < n \<longrightarrow>
        parse_members h n acc (join_commas (SerializeJSONObject h kvs) @ CHR 0x7D # rest) =
          Some (JObj (acc @ kvs), rest))"
proof (induction v and vs and kvs rule: json_value_json_elements_json_members.induct)
  case 1
  then show ?case by simp
next
  case 2
  have "\<forall>n rest. length ''null'' \<le> n \<longrightarrow> parse_value h n (''null'' @ rest) = Some (JNull, rest)"
  proof (intro allI impI)
    fix n :: nat and rest assume "length ''null'' \<le> n"
    then obtain m where "n = Suc m" by (cases n) simp_all
    then show "parse_value h n (''null'' @ rest) = Some (JNull, rest)"
      using parse_literals(1) by simp
  qed
  then show ?case by (simp add: starts_value_def is_ws_def)
next
  case (3 b)
  have "\<forall>n rest. 4 \<le> n \<longrightarrow>
     parse_value h n ((if b then ''true'' else ''false'') @ rest) = Some (JBool b, rest)"
  proof (intro allI impI)
    fix n :: nat and rest assume "4 \<le> n"
    then obtain m where "n = Suc m" by (cases n) simp_all
    then show "parse_value h n ((if b then ''true'' else ''false'') @ rest) = Some (JBool b, rest)"
      using parse_literals(2,3) [of h m rest] by (cases b) simp_all
  qed
  then show ?case by (cases b) (simp_all add: starts_value_def is_ws_def)
next
  case (4 q)
  then have num: "json_number (Number_toString h q)"
    and rd: "StringToNumber h (Number_toString h q) = q" by simp_all
  from json_number_hd [OF num] have ne: "Number_toString h q \<noteq> []" by auto
  have "\<forall>n rest. length (Number_toString h q) \<le> n \<longrightarrow> terminated rest \<longrightarrow>
          parse_value h n (Number_toString h q @ rest) = Some (JNum q, rest)"
  proof (intro allI impI)
    fix n :: nat and rest
    assume "length (Number_toString h q) \<le> n" and tm: "terminated rest"
    with ne obtain m where "n = Suc m" by (cases n) simp_all
    with parse_number_token(1) [OF num tm, of h m] rd
    show "parse_value h n (Number_toString h q @ rest) = Some (JNum q, rest)" by simp
  qed
  moreover have "starts_value (Number_toString h q)"
    using parse_number_token(2) [OF num, of "[]"] by (simp add: terminated_def)
  ultimately show ?case by simp
next
  case (5 str)
  have "\<forall>n rest. length (QuoteJSONString str) \<le> n \<longrightarrow>
          parse_value h n (QuoteJSONString str @ rest) = Some (JStr str, rest)"
  proof (intro allI impI)
    fix n :: nat and rest
    assume "length (QuoteJSONString str) \<le> n"
    then obtain m where "n = Suc m" by (cases n) (simp_all add: QuoteJSONString_def)
    then show "parse_value h n (QuoteJSONString str @ rest) = Some (JStr str, rest)"
      by (simp only: parse_string_literal)
  qed
  moreover have "starts_value (QuoteJSONString str)"
    using starts_value_quote [of str "[]"] by simp
  ultimately show ?case by simp
next
  case (6 vs)
  let ?ts = "join_commas (SerializeJSONArray h vs)"
  let ?t = "CHR ''['' # ?ts @ '']''"
  have empty: "vs = [] \<longrightarrow> ?ts = []" by simp
  have "\<forall>n rest. length ?t \<le> n \<longrightarrow> parse_value h n (?t @ rest) = Some (JArr vs, rest)"
  proof (intro allI impI)
    fix n :: nat and rest
    assume "length ?t \<le> n"
    then obtain m where n: "n = Suc m" "length ?ts < m" by (cases n) simp_all
    have "vs = [] \<or>
      (starts_value ?ts \<and> parse_elements h m [] (?ts @ CHR '']'' # rest) = Some (JArr vs, rest))"
    proof (cases "vs = []")
      case True
      then show ?thesis by simp
    next
      case False
      with "6.IH" "6.prems" n(2) show ?thesis by simp
    qed
    from parse_array_text [OF this empty] n(1)
    show "parse_value h n (?t @ rest) = Some (JArr vs, rest)" by simp
  qed
  then show ?case by (simp add: starts_value_def is_ws_def)
next
  case (7 kvs)
  let ?ts = "join_commas (SerializeJSONObject h kvs)"
  let ?t = "CHR 0x7B # ?ts @ [CHR 0x7D]"
  from "7.prems" have d: "distinct (map fst kvs)" and jm: "json_members kvs"
    and nm: "numbers_reread_members h kvs" by simp_all
  have empty: "kvs = [] \<longrightarrow> ?ts = []" by simp
  have "\<forall>n rest. length ?t \<le> n \<longrightarrow> parse_value h n (?t @ rest) = Some (JObj kvs, rest)"
  proof (intro allI impI)
    fix n :: nat and rest
    assume "length ?t \<le> n"
    then obtain m where n: "n = Suc m" "length ?ts < m" by (cases n) simp_all
    have "kvs = [] \<or>
      (starts_value ?ts \<and> parse_members h m [] (?ts @ CHR 0x7D # rest) = Some (JObj kvs, rest))"
    proof (cases "kvs = []")
      case True
      then show ?thesis by simp
    next
      case False
      with "7.IH" [OF jm nm] d n(2) show ?thesis by simp
    qed
    from parse_object_text [OF this empty] n(1)
    show "parse_value h n (?t @ rest) = Some (JObj kvs, rest)" by simp
  qed
  then show ?case by (simp add: starts_value_def is_ws_def)
next
  case 8
  then show ?case by simp
next
  case (9 v vs)
  from "9.prems" have jv: "json_value v" and je: "json_elements vs"
    and nv: "numbers_reread h v" and ne: "numbers_reread_elements h vs" by simp_all
  from "9.IH"(1) [OF jv nv] obtain t where
    t: "SerializeJSONProperty h v = Some t" "starts_value t"
       "\<And>n rest. length t \<le> n \<Longrightarrow> terminated rest \<Longrightarrow>
          parse_value h n (t @ rest) = Some (v, rest)" by blast
  show ?case
  proof (cases "vs = []")
    case True
    with t(1) have ts: "join_commas (SerializeJSONArray h (v # vs)) = t" by simp
    have "\<forall>n acc rest. length t < n \<longrightarrow>
        parse_elements h n acc (t @ CHR '']'' # rest) = Some (JArr (acc @ v # vs), rest)"
    proof (intro allI impI)
      fix n :: nat and acc rest
      assume "length t < n"
      then obtain m where n: "n = Suc m" "length t \<le> m" by (cases n) simp_all
      from t(3) [OF n(2) terminated_simps(2)]
      have "parse_value h m (t @ CHR '']'' # rest) = Some (v, CHR '']'' # rest)" .
      from parse_elements_one [OF this] n(1) True
      show "parse_elements h n acc (t @ CHR '']'' # rest) = Some (JArr (acc @ v # vs), rest)"
        by simp
    qed
    with ts t(2) show ?thesis by simp
  next
    case False
    let ?u = "join_commas (SerializeJSONArray h vs)"
    from False t(1) have ts: "join_commas (SerializeJSONArray h (v # vs)) = t @ CHR '','' # ?u"
      by (simp add: join_commas_Cons SerializeJSONArray_nonempty)
    from "9.IH"(2) [OF je ne False] have
      u: "\<And>n acc rest. length ?u < n \<Longrightarrow>
            parse_elements h n acc (?u @ CHR '']'' # rest) = Some (JArr (acc @ vs), rest)"
      by blast
    have "\<forall>n acc rest. length (t @ CHR '','' # ?u) < n \<longrightarrow>
        parse_elements h n acc ((t @ CHR '','' # ?u) @ CHR '']'' # rest) =
          Some (JArr (acc @ v # vs), rest)"
    proof (intro allI impI)
      fix n :: nat and acc rest
      assume "length (t @ CHR '','' # ?u) < n"
      then obtain m where n: "n = Suc m" "length t \<le> m" "length ?u < m"
        by (cases n) simp_all
      from t(3) [OF n(2) terminated_simps(1)]
      have "parse_value h m (t @ CHR '','' # ?u @ CHR '']'' # rest) =
              Some (v, CHR '','' # ?u @ CHR '']'' # rest)" .
      from parse_elements_more [OF this] u [OF n(3)] n(1)
      show "parse_elements h n acc ((t @ CHR '','' # ?u) @ CHR '']'' # rest) =
              Some (JArr (acc @ v # vs), rest)"
        by simp
    qed
    with ts starts_value_append [OF t(2)] show ?thesis by simp
  qed
next
  case 10
  then show ?case by simp
next
  case (11 k v kvs)
  from "11.prems" have jv: "json_value v" and jm: "json_members kvs"
    and nv: "numbers_reread h v" and nm: "numbers_reread_members h kvs" by simp_all
  from "11.IH"(1) [OF jv nv] obtain t where
    t: "SerializeJSONProperty h v = Some t" "starts_value t"
       "\<And>n rest. length t \<le> n \<Longrightarrow> terminated rest \<Longrightarrow>
          parse_value h n (t @ rest) = Some (v, rest)" by blast
  let ?m = "QuoteJSONString k @ CHR '':'' # t"
  show ?case
  proof (cases "kvs = []")
    case True
    with t(1) have ts: "join_commas (SerializeJSONObject h ((k, v) # kvs)) = ?m" by simp
    have "\<forall>n acc rest. distinct (map fst acc @ map fst ((k, v) # kvs)) \<longrightarrow> length ?m < n \<longrightarrow>
        parse_members h n acc (?m @ CHR 0x7D # rest) = Some (JObj (acc @ (k, v) # kvs), rest)"
    proof (intro allI impI)
      fix n :: nat and acc :: jsobj and rest
      assume d: "distinct (map fst acc @ map fst ((k, v) # kvs))" and "length ?m < n"
      then obtain m where n: "n = Suc m" "length t \<le> m" by (cases n) simp_all
      from d have fresh: "k \<notin> fst ` set acc" by auto
      from t(3) [OF n(2) terminated_simps(3)]
      have "parse_value h m (t @ CHR 0x7D # rest) = Some (v, CHR 0x7D # rest)" .
      from parse_members_one [OF this, of acc k] n(1) True obj_set_fresh [OF fresh, of v]
      show "parse_members h n acc (?m @ CHR 0x7D # rest) = Some (JObj (acc @ (k, v) # kvs), rest)"
        by simp
    qed
    with ts starts_value_quote [of k "CHR '':'' # t"] show ?thesis by simp
  next
    case False
    let ?u = "join_commas (SerializeJSONObject h kvs)"
    from False t(1) SerializeJSONObject_nonempty [OF jm False, of h]
    have ts: "join_commas (SerializeJSONObject h ((k, v) # kvs)) = ?m @ CHR '','' # ?u"
      by (simp add: join_commas_Cons)
    from "11.IH"(2) [OF jm nm False] have
      u: "\<And>n acc rest. distinct (map fst acc @ map fst kvs) \<Longrightarrow> length ?u < n \<Longrightarrow>
            parse_members h n acc (?u @ CHR 0x7D # rest) = Some (JObj (acc @ kvs), rest)"
      by blast
    have "\<forall>n acc rest. distinct (map fst acc @ map fst ((k, v) # kvs)) \<longrightarrow>
        length (?m @ CHR '','' # ?u) < n \<longrightarrow>
        parse_members h n acc ((?m @ CHR '','' # ?u) @ CHR 0x7D # rest) =
          Some (JObj (acc @ (k, v) # kvs), rest)"
    proof (intro allI impI)
      fix n :: nat and acc :: jsobj and rest
      assume d: "distinct (map fst acc @ map fst ((k, v) # kvs))"
        and "length (?m @ CHR '','' # ?u) < n"
      then obtain m where n: "n = Suc m" "length t \<le> m" "length ?u < m"
        by (cases n) simp_all
      from d have fresh: "k \<notin> fst ` set acc"
        and d': "distinct (map fst (acc @ [(k, v)]) @ map fst kvs)" by auto
      from t(3) [OF n(2) terminated_simps(1)]
      have "parse_value h m (t @ CHR '','' # ?u @ CHR 0x7D # rest) =
              Some (v, CHR '','' # ?u @ CHR 0x7D # rest)" .
      from parse_members_more [OF this, of acc k] u [OF d' n(3), of rest] n(1)
        obj_set_fresh [OF fresh, of v]
      show "parse_members h n acc ((?m @ CHR '','' # ?u) @ CHR 0x7D # rest) =
              Some (JObj (acc @ (k, v) # kvs), rest)"
        by simp
    qed
    with ts starts_value_quote [of k "CHR '':'' # t @ CHR '','' # ?u"] show ?thesis by simp
  qed
qed

lemma json_elements_snoc: "json_elements (acc @ [v]) = (json_elements acc \<and> json_value v)"
  by (induction acc) auto

lemma json_members_obj_set:
  "json_members acc \<Longrightarrow> json_value v \<Longrightarrow> json_members (obj_set acc key v)"
  by (induction acc) auto

lemma keys_obj_set:
  "map fst (obj_set acc key v) =
     (if key \<in> fst ` set acc then map fst acc else map fst acc @ [key])"
proof (induction acc)
  case Nil
  show ?case by simp
next
  case (Cons p acc)
  obtain k w where p: "p = (k, w)" by (cases p)
  show ?case
  proof (cases "k = key")
    case True
    with p show ?thesis by simp
  next
    case False
    with p Cons show ?thesis by simp
  qed
qed

lemma json_value_obj_set:
  assumes "json_value (JObj acc)" "json_value v"
  shows "json_value (JObj (obj_set acc key v))"
proof -
  from assms have "distinct (map fst (obj_set acc key v))"
    by (simp add: keys_obj_set)
  with assms show ?thesis by (simp add: json_members_obj_set)
qed

lemma literal_value: "literal word val s = Some (v, r) \<Longrightarrow> v = val"
  by (simp add: literal_def split: if_splits)

lemma number_value: "number h s = Some (v, r) \<Longrightarrow> json_value v"
  by (auto simp: number_def Let_def split: if_splits)

lemma parsed_json_value:
  "parse_value h n s = Some (v, r) \<Longrightarrow> json_value v"
  "json_elements acc \<Longrightarrow> parse_elements h n acc s = Some (v, r) \<Longrightarrow> json_value v"
  "json_value (JObj obj) \<Longrightarrow> parse_members h n obj s = Some (v, r) \<Longrightarrow> json_value v"
proof (induction h n s and h n acc s and h n obj s arbitrary: v r and v r and v r
    rule: parse_value_parse_elements_parse_members.induct)
  case (1 h s)
  then show ?case by simp
next
  case (2 h n s)
  from "2.prems" obtain c cs where s: "skip_ws s = c # cs"
    by (cases "skip_ws s") simp_all
  show ?case
  proof (cases "c = CHR ''[''")
    case True
    with "2.prems" s obtain d r' where d: "skip_ws cs = d # r'"
      by (cases "skip_ws cs") simp_all
    show ?thesis
    proof (cases "d = CHR '']''")
      case dT: True
      with "2.prems" s True d show ?thesis by auto
    next
      case False
      with "2.prems" s True d have "parse_elements h n [] cs = Some (v, r)" by simp
      from "2.IH"(1) [OF s True d False _ this] show ?thesis by simp
    qed
  next
    case nb: False
    show ?thesis
    proof (cases "c = CHR 0x7B")
      case True
      with "2.prems" s nb obtain d r' where d: "skip_ws cs = d # r'"
        by (cases "skip_ws cs") simp_all
      show ?thesis
      proof (cases "d = CHR 0x7D")
        case dT: True
        with "2.prems" s nb True d show ?thesis by auto
      next
        case False
        with "2.prems" s nb True d have "parse_members h n [] cs = Some (v, r)" by simp
        from "2.IH"(2) [OF s nb True d False _ this] show ?thesis by simp
      qed
    next
      case nc: False
      with "2.prems" s nb show ?thesis
        by (auto simp: number_value split: if_splits option.splits dest: literal_value)
    qed
  qed
next
  case (3 h acc s)
  then show ?case by simp
next
  case (4 h n acc s)
  from "4.prems"(2) obtain w r1 where p: "parse_value h n s = Some (w, r1)"
    by (cases "parse_value h n s") auto
  from "4.IH"(1) [OF p] have w: "json_value w" .
  from "4.prems"(2) p obtain d r' where d: "skip_ws r1 = d # r'"
    by (cases "skip_ws r1") simp_all
  show ?case
  proof (cases "d = CHR '',''")
    case True
    with "4.prems"(2) p d have "parse_elements h n (acc @ [w]) r' = Some (v, r)" by simp
    from "4.IH"(2) [OF p refl d True _ this] "4.prems"(1) w show ?thesis
      by (simp add: json_elements_snoc)
  next
    case False
    with "4.prems" p d w show ?thesis
      by (auto simp: json_elements_snoc split: if_splits)
  qed
next
  case (5 h obj s)
  then show ?case by simp
next
  case (6 h n obj s)
  from "6.prems"(2) obtain q cs where s: "skip_ws s = q # cs"
    by (cases "skip_ws s") simp_all
  with "6.prems"(2) have q: "q = CHR 0x22" by (simp split: if_splits)
  with "6.prems"(2) s obtain key r1 where k: "string_body cs = Some (key, r1)"
    by (cases "string_body cs") auto
  with "6.prems"(2) s q obtain d r2 where d: "skip_ws r1 = d # r2"
    by (cases "skip_ws r1") simp_all
  with "6.prems"(2) s q k have c: "d = CHR '':''" by (simp split: if_splits)
  with "6.prems"(2) s q k d obtain w r3 where p: "parse_value h n r2 = Some (w, r3)"
    by (cases "parse_value h n r2") auto
  from "6.IH"(1) [OF s q k refl d c p] have w: "json_value w" .
  from "6.prems"(2) s q k d c p obtain e t where e: "skip_ws r3 = e # t"
    by (cases "skip_ws r3") simp_all
  from json_value_obj_set [OF "6.prems"(1) w] have o: "json_value (JObj (obj_set obj key w))" .
  show ?case
  proof (cases "e = CHR '',''")
    case True
    with "6.prems"(2) s q k d c p e
    have "parse_members h n (obj_set obj key w) t = Some (v, r)" by simp
    from "6.IH"(2) [OF s q k refl d c p refl e True o this] show ?thesis .
  next
    case False
    with "6.prems"(2) s q k d c p e o show ?thesis by (auto split: if_splits)
  qed
qed

lemma JSON_roundtrip:
  assumes "JSON_parse h s = Some v" "numbers_reread h v"
  shows "\<exists>t. JSON_stringify h v = Some t \<and> JSON_parse h t = Some v"
proof -
  from assms(1) obtain r where "parse_value h (Suc (length s)) s = Some (v, r)"
    by (auto simp: JSON_parse_def split: option.splits if_splits)
  then have "json_value v" by (rule parsed_json_value(1))
  from parse_serialized(1) [OF this assms(2)] obtain t where
    t: "SerializeJSONProperty h v = Some t"
       "\<And>n rest. length t \<le> n \<Longrightarrow> terminated rest \<Longrightarrow>
          parse_value h n (t @ rest) = Some (v, rest)" by blast
  have "terminated []" by (simp add: terminated_def)
  from t(2) [OF _ this, of "Suc (length t)"]
  have "parse_value h (Suc (length t)) t = Some (v, [])" by simp
  then have "JSON_parse h t = Some v" by (simp add: JSON_parse_def skip_ws_def)
  with t(1) show ?thesis by (simp add: JSON_stringify_def)
qed

text \<open>
  C3. When the text of the stage parses, and the host reads back the numbers it writes,
  the minified handler ends without an exception and saves a text that parses to the
  value the text saved by the regular handler parses to.
\<close>

theorem minified_parses_as_regular:
  assumes "JSON_parse h (toJSON h st) = Some v" and "numbers_reread h v"
  shows "\<exists>regular minified.
     snd (handleRegularExport h st) = None \<and>
     downloads (fst (handleRegularExport h st)) = downloads st @ [(''stage-regular.json'', regular)] \<and>
     snd (handleMinifiedExport h st) = None \<and>
     downloads (fst (handleMinifiedExport h st)) =
       downloads st @ [(''stage-minified.json'', minified)] \<and>
     JSON_parse h minified = JSON_parse h regular \<and>
     JSON_parse h regular = Some v"
proof -
  from JSON_roundtrip [OF assms] obtain t where
    t: "JSON_stringify h v = Some t" "JSON_parse h t = Some v" by blast
  have "snd (handleRegularExport h st) = None \<and>
     downloads (fst (handleRegularExport h st)) =
       downloads st @ [(''stage-regular.json'', toJSON h st)]"
    by (simp add: handleRegularExport_def downloadAndShowSize_def Blob_def Let_def)
  moreover from assms(1) t(1) have "snd (handleMinifiedExport h st) = None \<and>
     downloads (fst (handleMinifiedExport h st)) = downloads st @ [(''stage-minified.json'', t)]"
    by (simp add: handleMinifiedExport_def downloadAndShowSize_def Blob_def Let_def)
  ultimately show ?thesis using assms(1) t(2) by auto
qed

text \<open>
  A run: the text of the stage has white space, the saved minified text has none, and
  both parse to the same value.
\<close>

lemma stage_text_parses: "JSON_parse integer_host (toJSON integer_host initial_state) = Some stage_value"
  by code_simp

lemma stage_value_numbers: "numbers_reread integer_host stage_value"
  by code_simp

lemma minified_run:
  \<open>downloads (fst (handleMinifiedExport integer_host initial_state)) =
     [(''stage-minified.json'',
       ''{"attrs":{"width":800,"x":-5},"className":"Stage","children":[]}'')]\<close>
  by code_simp

theorem minified_parses_as_regular_witness:
  \<open>JSON_parse integer_host (toJSON integer_host initial_state) = Some stage_value \<and>
   numbers_reread integer_host stage_value \<and>
   downloads (fst (handleRegularExport integer_host initial_state)) =
     [(''stage-regular.json'', stage_text)] \<and>
   downloads (fst (handleMinifiedExport integer_host initial_state)) =
     [(''stage-minified.json'',
       ''{"attrs":{"width":800,"x":-5},"className":"Stage","children":[]}'')] \<and>
   JSON_parse integer_host ''{"attrs":{"width":800,"x":-5},"className":"Stage","children":[]}'' =
     JSON_parse integer_host stage_text \<and>
   JSON_parse integer_host stage_text = Some stage_value\<close>
proof -
  from minified_parses_as_regular [OF stage_text_parses stage_value_numbers]
  obtain regular minified where
    r: "downloads (fst (handleRegularExport integer_host initial_state)) =
          downloads initial_state @ [(''stage-regular.json'', regular)]"
    and m: "downloads (fst (handleMinifiedExport integer_host initial_state)) =
          downloads initial_state @ [(''stage-minified.json'', minified)]"
    and p: "JSON_parse integer_host minified = JSON_parse integer_host regular"
           "JSON_parse integer_host regular = Some stage_value"
    by blast
  have "downloads (fst (handleRegularExport integer_host initial_state)) =
     [(''stage-regular.json'', stage_text)]"
    by (simp add: handleRegularExport_def downloadAndShowSize_def Blob_def integer_host_def
        initial_state_def Let_def)
  with r have regular: "regular = stage_text" by (simp add: initial_state_def)
  from m minified_run have minified:
    \<open>minified = ''{"attrs":{"width":800,"x":-5},"className":"Stage","children":[]}''\<close>
    by (simp add: initial_state_def)
  from r m p regular minified stage_text_parses stage_value_numbers show ?thesis
    by (simp add: initial_state_def)
qed

end
